theory Spec2Isabelle
  imports Main "HOL-Library.Word" "HOL-Library.Sublist" "HOL-Library.List_Lexorder"
begin

section \<open>Data model of \<^verbatim>\<open>eth/stagedsync/exec3.go\<close>\<close>

text \<open>
  Go's \<^verbatim>\<open>uint64\<close> is a 64-bit word (addition and subtraction wrap around); byte
  slices are lists of 8-bit words. Go's \<^verbatim>\<open>int\<close> counters of \<^verbatim>\<open>processResultQueue\<close>
  (\<^verbatim>\<open>i\<close>, \<^verbatim>\<open>conflicts\<close>, \<^verbatim>\<open>triggers\<close>) and the transaction index are \<open>int\<close>: they count
  loop iterations over an in-memory slice and stay far below \<open>2^63\<close>.
\<close>

type_synonym u64 = "64 word"
type_synonym bytes = "8 word list"

text \<open>
  Errors are values. \<open>Canceled\<close> is \<^verbatim>\<open>context.Canceled\<close>, \<open>ErrStopped\<close> is
  \<^verbatim>\<open>common.ErrStopped\<close>, \<open>Errorf\<close> is a fresh error built by \<^verbatim>\<open>fmt.Errorf\<close> without
  \<^verbatim>\<open>%w\<close>, and \<open>Wrapped\<close> is \<^verbatim>\<open>fmt.Errorf("...: %w", err)\<close>.
\<close>

datatype error = Canceled | ErrStopped | Errorf string | Wrapped string error

fun errorsIs :: "error \<Rightarrow> error \<Rightarrow> bool" where
  "errorsIs (Wrapped m e) target = (Wrapped m e = target \<or> errorsIs e target)"
| "errorsIs e target = (e = target)"

record Header =
  Number :: u64
  GasUsed :: u64
  Root :: bytes
  Hash :: bytes
  ParentHash :: bytes

text \<open>
  A transaction, as far as the driver looks at it: the result of \<^verbatim>\<open>AsMessage\<close> (only
  whether it fails), the cached sender of \<^verbatim>\<open>GetSender\<close> and the result of the signer's
  sender recovery.
\<close>

record Transaction =
  AsMessage :: "error option"
  GetSender :: "bytes option"
  SignerSender :: "error + bytes"

record Block =
  HeaderNoCopy :: Header
  Transactions :: "Transaction list"

text \<open>
  \<^verbatim>\<open>exec22.TxTask\<close>. The fields that only carry context into the virtual machine
  (coinbase, uncles, rules, hash function, EVM block context, withdrawals, the message)
  are not read by the code of this file and are left out.
\<close>

record TxTask =
  BlockNum :: u64
  TxNum :: u64
  TxIndex :: int
  Final :: bool
  TaskHeader :: Header
  BlockHash :: bytes
  BlockRoot :: bytes
  Tx :: "Transaction option"
  Sender :: "bytes option"
  Error :: "error option"
  UsedGas :: u64

text \<open>
  Every call the code makes on a collaborator (state, aggregator, apply worker, durable
  transaction, unwinder, header downloader) is recorded, in order, in a list of calls.
  Logging, metrics, read-ahead and the rebinding of transaction handles return nothing the
  code looks at and are not recorded.
\<close>

datatype tableName = PlainState | Code | PlainContractCode

datatype call =
    BeginRw
  | TxNumsMax u64
  | BlockWithSenders u64
  | RawTransactions u64
  | RunTxTask TxTask
  | ReTry TxTask
  | ApplyState4 TxTask
  | ApplyLogsAndTraces TxTask
  | CommitTxNum TxTask
  | BackPressure
  | RegisterSender TxTask
  | AddWork TxTask
  | ReportBadHeaderPoS bytes bytes
  | UnwindTo u64 bytes
  | ComputeCommitment
  | AggFlush
  | ClearRam
  | BuildFilesInBackground u64
  | Prune
  | StageUpdate u64
  | TxCommit
  | StartRwLoop
  | WaitRwLoop
  | DrainNonBlocking
  | DropResults
  | MergeLoop
  | MakeSteps
  | FindBlockNum u64
  | TxNumsMin u64
  | TxNumsLast
  | OpenReconDb
  | BitmapAccounts
  | BitmapStorage
  | BitmapCode
  | ReplayBlocks u64 u64 u64
  | ReconFlush
  | ScratchView
  | ClearBuckets
  | Put tableName bytes bytes
  | Delete tableName bytes
  | ChainDbCommit
  | FillAccounts
  | FillStorage
  | FillCode

text \<open>
  The six tables of the scratch store that reconstitution fills, each as the list of
  pairs \<^verbatim>\<open>ForEach\<close> visits, in its order. A key of an \<open>R\<close> table is the 8 bytes of a
  transaction number followed by the domain key; a \<open>D\<close> table has the 8 bytes as key and
  the domain key as value.
\<close>

type_synonym table = "(bytes \<times> bytes) list"

record scratchTables =
  PlainStateR :: table
  PlainStateD :: table
  CodeR :: table
  CodeD :: table
  PlainContractR :: table
  PlainContractD :: table

text \<open>
  The collaborators are outside this file. What each of them answers may depend on
  everything that happened before, so each answer is a function of the calls made so far
  (and of the argument). \<open>logEvery_C\<close> says whether the one-second ticker has a tick
  ready and \<open>ctx_Done\<close> gives \<^verbatim>\<open>ctx.Err()\<close> once the context is cancelled.
\<close>

record env =
  rs_ReadsValid :: "call list \<Rightarrow> TxTask \<Rightarrow> bool"
  applyWorker_RunTxTask :: "call list \<Rightarrow> TxTask \<Rightarrow> error option \<times> u64"
  rs_ApplyState4 :: "call list \<Rightarrow> TxTask \<Rightarrow> error option"
  rs_ApplyLogsAndTraces :: "call list \<Rightarrow> TxTask \<Rightarrow> error option"
  rs_CommitTxNum :: "call list \<Rightarrow> TxTask \<Rightarrow> int"
  rs_RegisterSender :: "call list \<Rightarrow> TxTask \<Rightarrow> bool"
  rs_SizeEstimate :: "call list \<Rightarrow> u64"
  rws_arrived :: "call list \<Rightarrow> TxTask list"
  chainDb_BeginRw :: "call list \<Rightarrow> error option"
  TxNums_Max :: "call list \<Rightarrow> u64 \<Rightarrow> error + u64"
  blockReader_BlockByNumber :: "call list \<Rightarrow> u64 \<Rightarrow> error + Block option"
  blockReader_RawTransactions :: "call list \<Rightarrow> u64 \<Rightarrow> error option"
  agg_ComputeCommitment :: "call list \<Rightarrow> error + bytes"
  agg_Flush :: "call list \<Rightarrow> error option"
  agg_CanPrune :: "call list \<Rightarrow> bool"
  agg_Prune :: "call list \<Rightarrow> error option"
  execStage_Update :: "call list \<Rightarrow> u64 \<Rightarrow> error option"
  tx_Commit :: "call list \<Rightarrow> error option"
  logEvery_C :: "call list \<Rightarrow> bool"
  ctx_Done :: "call list \<Rightarrow> error option"
  rwLoopErrCh :: "call list \<Rightarrow> error option"
  rwLoopG_Wait :: "call list \<Rightarrow> error option"
  agg_MergeLoop :: "call list \<Rightarrow> error option"
  agg_MakeSteps :: "call list \<Rightarrow> error + (u64 \<times> u64) list"
  TxNums_FindBlockNum :: "call list \<Rightarrow> u64 \<Rightarrow> error + bool \<times> u64"
  TxNums_Min :: "call list \<Rightarrow> u64 \<Rightarrow> error + u64"
  openReconDb :: "call list \<Rightarrow> error option"
  scanWorker_BitmapAccounts :: "call list \<Rightarrow> error option"
  scanWorker_BitmapStorage :: "call list \<Rightarrow> error option"
  scanWorker_BitmapCode :: "call list \<Rightarrow> error option"
  replayBlocks :: "call list \<Rightarrow> error option"
  rs_Flush :: "call list \<Rightarrow> error option"
  db_View :: "call list \<Rightarrow> error option"
  scratch :: "call list \<Rightarrow> scratchTables"
  db_ClearBuckets :: "call list \<Rightarrow> error option"
  tx_Put :: "call list \<Rightarrow> tableName \<Rightarrow> bytes \<Rightarrow> bytes \<Rightarrow> error option"
  tx_Delete :: "call list \<Rightarrow> tableName \<Rightarrow> bytes \<Rightarrow> error option"
  chainDb_Commit :: "call list \<Rightarrow> error option"
  fillWorker_FillAccounts :: "call list \<Rightarrow> error option"
  fillWorker_FillStorage :: "call list \<Rightarrow> error option"
  fillWorker_FillCode :: "call list \<Rightarrow> error option"
  fillWorker_collected :: "call list \<Rightarrow> tableName \<Rightarrow> (bytes \<times> bytes option) list"

text \<open>
  \<^verbatim>\<open>applyWorker.RunTxTask(txTask)\<close> executes the task and writes its outputs into the
  task itself: the error and the gas used (the read and write sets stay inside the
  collaborators). The inputs of the task are not changed.
\<close>

definition runTxTask :: "env \<Rightarrow> call list \<Rightarrow> TxTask \<Rightarrow> TxTask" where
  "runTxTask E cs t =
     (case applyWorker_RunTxTask E cs t of (e, g) \<Rightarrow> t\<lparr>Error := e, UsedGas := g\<rparr>)"

text \<open>
  The state of a function holds the calls made so far; the functions of the execution
  stage also share \<^verbatim>\<open>outputTxNum\<close>. The records of the functions extend these.
\<close>

record log =
  calls :: "call list"

record st = log +
  outputTxNum :: u64

definition record_call :: "call \<Rightarrow> 'a log_scheme \<Rightarrow> 'a log_scheme" where
  "record_call c s = s\<lparr>calls := calls s @ [c]\<rparr>"

text \<open>
  How a piece of code ends: it falls through to the statement after it, it leaves the
  enclosing loop (\<^verbatim>\<open>break\<close>), or it makes the function return an error.
\<close>

datatype 'a flow = Continue (flowState: 'a) | Break (flowState: 'a) | Return (flowState: 'a) error

definition andThen :: "'a flow \<Rightarrow> ('a \<Rightarrow> 'a flow) \<Rightarrow> 'a flow" where
  "andThen r f = (case r of Continue s \<Rightarrow> f s | Break s \<Rightarrow> Break s | Return s e \<Rightarrow> Return s e)"

text \<open>A call that may fail: \<^verbatim>\<open>if err := f(); err != nil { return err }\<close>.\<close>

definition fallible ::
  "(call list \<Rightarrow> error option) \<Rightarrow> call \<Rightarrow> 'a log_scheme \<Rightarrow> 'a log_scheme flow" where
  "fallible f c s =
     (case f (calls s) of
        Some e \<Rightarrow> Return (record_call c s) e
      | None \<Rightarrow> Continue (record_call c s))"

section \<open>The apply path: \<^verbatim>\<open>processResultQueue\<close>\<close>

text \<open>
  Modelled from the spec: \<^verbatim>\<open>exec22.ResultsQueue\<close> and its iterator are not in this file.
  The spec describes a min-heap of results keyed by transaction number whose iterator
  yields tasks while the smallest number equals the expected one. The heap is the list of
  its tasks in ascending order of \<open>TxNum\<close>; \<open>HasNext\<close> looks at the smallest task,
  \<open>PopNext\<close> removes it and \<open>heapPush\<close> inserts a task at its place.
\<close>

definition HasNext :: "TxTask list \<Rightarrow> u64 \<Rightarrow> bool" where
  "HasNext rws n = (case rws of [] \<Rightarrow> False | t # _ \<Rightarrow> TxNum t = n)"

definition PopNext :: "TxTask list \<Rightarrow> TxTask \<times> TxTask list" where
  "PopNext rws = (hd rws, tl rws)"


text \<open>The named results and the locals of \<^verbatim>\<open>processResultQueue\<close>.\<close>

record prq = st +
  conflicts :: int
  triggers :: int
  processedBlockNum :: u64
  stopedAtBlockEnd :: bool
  i_conflict :: int

text \<open>
  Lines 1016 to 1042: the apply step of one popped task. \<^verbatim>\<open>ApplyState4\<close> is called for
  a \<^verbatim>\<open>Final\<close> task only; \<^verbatim>\<open>CommitTxNum\<close>, the increment of \<^verbatim>\<open>outputTxNum\<close>, the
  back-pressure signal and \<^verbatim>\<open>ApplyLogsAndTraces\<close> follow for every task.
\<close>

definition applyStep :: "env \<Rightarrow> bool \<Rightarrow> bool \<Rightarrow> prq \<Rightarrow> TxTask \<Rightarrow> prq flow" where
  "applyStep E backPressure forceStopAtBlockEnd s t =
     (let s1 = (if Final t then record_call (ApplyState4 t) s else s);
          err1 = (if Final t then rs_ApplyState4 E (calls s) t else None)
      in case err1 of
           Some e \<Rightarrow> Return (s1\<lparr>stopedAtBlockEnd := False\<rparr>) (Wrapped ''StateV3.Apply'' e)
         | None \<Rightarrow>
             (let s2 = record_call (CommitTxNum t)
                         (s1\<lparr>triggers := triggers s1 + rs_CommitTxNum E (calls s1) t\<rparr>);
                  s3 = s2\<lparr>outputTxNum := outputTxNum s2 + 1\<rparr>;
                  s4 = (if backPressure then record_call BackPressure s3 else s3);
                  s5 = record_call (ApplyLogsAndTraces t) s4
              in case rs_ApplyLogsAndTraces E (calls s4) t of
                   Some e \<Rightarrow> Return (s5\<lparr>stopedAtBlockEnd := False\<rparr>) (Wrapped ''StateV3.Apply'' e)
                 | None \<Rightarrow>
                     (let s6 = s5\<lparr>processedBlockNum := BlockNum t, stopedAtBlockEnd := Final t\<rparr>
                      in if forceStopAtBlockEnd \<and> Final t then Break s6 else Continue s6)))"

text \<open>Line 999: the conflict test on a popped task.\<close>

definition isConflict :: "env \<Rightarrow> prq \<Rightarrow> TxTask \<Rightarrow> bool" where
  "isConflict E s t = (Error t \<noteq> None \<or> \<not> rs_ReadsValid E (calls s) t)"

text \<open>Lines 998 to 1042: the body of the loop, for the popped task \<open>t\<close>.\<close>

definition loopBody :: "env \<Rightarrow> bool \<Rightarrow> bool \<Rightarrow> bool \<Rightarrow> prq \<Rightarrow> TxTask \<Rightarrow> prq flow" where
  "loopBody E backPressure canRetry forceStopAtBlockEnd s t =
     (if isConflict E s t then
        (let s1 = s\<lparr>conflicts := conflicts s + 1\<rparr>
         in if i_conflict s1 > 0 \<and> canRetry then
              Continue (record_call (ReTry t) s1)
            else
              (let t' = runTxTask E (calls s1) t;
                   s2 = record_call (RunTxTask t) s1
               in case Error t' of
                    Some e \<Rightarrow> Return (s2\<lparr>stopedAtBlockEnd := False\<rparr>) e
                  | None \<Rightarrow>
                      applyStep E backPressure forceStopAtBlockEnd
                        (s2\<lparr>i_conflict := i_conflict s2 + 1\<rparr>) t'))
      else applyStep E backPressure forceStopAtBlockEnd s t)"

text \<open>Line 997: the loop. It ends when the heap's smallest task is not the expected one.\<close>

function resultLoop ::
  "env \<Rightarrow> bool \<Rightarrow> bool \<Rightarrow> bool \<Rightarrow> TxTask list \<Rightarrow> prq \<Rightarrow> TxTask list \<times> prq \<times> error option"
where
  "resultLoop E backPressure canRetry forceStopAtBlockEnd rws s =
     (if HasNext rws (outputTxNum s) then
        (case loopBody E backPressure canRetry forceStopAtBlockEnd s (fst (PopNext rws)) of
           Continue s' \<Rightarrow>
             resultLoop E backPressure canRetry forceStopAtBlockEnd (snd (PopNext rws)) s'
         | Break s' \<Rightarrow> (snd (PopNext rws), s', None)
         | Return s' e \<Rightarrow> (snd (PopNext rws), s', Some e))
      else (rws, s, None))"
  by pat_completeness auto
termination
  by (relation "measure (\<lambda>(E, bp, cr, fs, rws, s). length rws)")
     (auto simp: HasNext_def PopNext_def split: list.splits)

text \<open>
  \<^verbatim>\<open>processResultQueue\<close> itself. \<open>cs\<close> is the list of calls made before it is entered;
  the result is the heap that is left, the named results and the error.
\<close>

definition processResultQueue ::
  "env \<Rightarrow> call list \<Rightarrow> TxTask list \<Rightarrow> u64 \<Rightarrow> bool \<Rightarrow> bool \<Rightarrow> bool \<Rightarrow>
   TxTask list \<times> prq \<times> error option"
where
  "processResultQueue E cs rws outputTxNumIn backPressure canRetry forceStopAtBlockEnd =
     resultLoop E backPressure canRetry forceStopAtBlockEnd rws
       \<lparr>calls = cs, outputTxNum = outputTxNumIn, conflicts = 0, triggers = 0,
        processedBlockNum = 0, stopedAtBlockEnd = False, i_conflict = 0\<rparr>"

section \<open>The block driver: \<^verbatim>\<open>ExecV3\<close>\<close>

text \<open>
  The configuration \<^verbatim>\<open>ExecuteBlockCfg\<close> and the process-wide switches the function reads.
  \<open>cfg_hd\<close> says whether \<^verbatim>\<open>cfg.hd\<close> is not nil, \<open>Produce\<close> is
  \<^verbatim>\<open>blockReader.FreezingCfg().Produce\<close>, \<open>DiscardCommitment\<close> is
  \<^verbatim>\<open>dbg.DiscardCommitment()\<close>, \<open>commitThreshold\<close> is \<^verbatim>\<open>cfg.batchSize.Bytes()\<close> and
  \<open>stateStreamLimit\<close> is a constant of the package declared in another file.
\<close>

record cfg =
  badBlockHalt :: bool
  cfg_hd :: bool
  stateStream :: bool
  commitThreshold :: u64
  Produce :: bool
  DiscardCommitment :: bool
  stateStreamLimit :: u64

text \<open>
  The arguments: \<open>execStage_BlockNumber\<close> is \<^verbatim>\<open>execStage.BlockNumber\<close> and
  \<open>applyTx_given\<close> says whether the caller passed a transaction (\<^verbatim>\<open>applyTx != nil\<close>).
\<close>

record args =
  execStage_BlockNumber :: u64
  applyTx_given :: bool
  maxBlockNum :: u64
  initialCycle :: bool

text \<open>
  The variables of \<^verbatim>\<open>ExecV3\<close> that its closures share. \<open>gasUsed\<close> is declared inside
  the block loop and starts at zero for every block; \<open>rws\<close> is the result heap.
\<close>

record exec = st +
  inputTxNum :: u64
  stageProgress :: u64
  outputBlockNum :: u64
  gasUsed :: u64
  blockComplete :: bool
  rws :: "TxTask list"

text \<open>Lines 627 to 643: the task of index \<open>txIndex\<close> of block \<open>b\<close>.\<close>

definition newTxTask :: "u64 \<Rightarrow> Block \<Rightarrow> u64 \<Rightarrow> int \<Rightarrow> TxTask" where
  "newTxTask blockNum b inputTxNum' txIndex =
     \<lparr>BlockNum = blockNum, TxNum = inputTxNum', TxIndex = txIndex,
      Final = (txIndex = int (length (Transactions b))),
      TaskHeader = HeaderNoCopy b, BlockHash = Hash (HeaderNoCopy b),
      BlockRoot = Root (HeaderNoCopy b), Tx = None, Sender = None, Error = None, UsedGas = 0\<rparr>"

text \<open>
  Lines 644 to 661: a task of a transaction gets the transaction and its sender; the
  conversion to a message and the recovery of a missing sender may fail.
\<close>

definition attachTx :: "Transaction list \<Rightarrow> TxTask \<Rightarrow> error + TxTask" where
  "attachTx txs t =
     (if 0 \<le> TxIndex t \<and> TxIndex t < int (length txs) then
        (let tx = txs ! nat (TxIndex t)
         in case AsMessage tx of
              Some e \<Rightarrow> Inl e
            | None \<Rightarrow>
                (case GetSender tx of
                   Some a \<Rightarrow> Inr (t\<lparr>Tx := Some tx, Sender := Some a\<rparr>)
                 | None \<Rightarrow>
                     (case SignerSender tx of
                        Inl e \<Rightarrow> Inl e
                      | Inr a \<Rightarrow> Inr (t\<lparr>Tx := Some tx, Sender := Some a\<rparr>))))
      else Inr t)"

text \<open>
  Lines 677 to 693: the closure that checks the executed task. It gives the error of the
  task, or the error of the gas check, or the new value of \<^verbatim>\<open>gasUsed\<close>. (When it fails
  the loop is left and \<^verbatim>\<open>gasUsed\<close> is not read again.)
\<close>

definition gasCheck :: "u64 \<Rightarrow> TxTask \<Rightarrow> error + u64" where
  "gasCheck gasUsed' t =
     (case Error t of
        Some e \<Rightarrow> Inl e
      | None \<Rightarrow>
          if Final t then
            (if gasUsed' + UsedGas t \<noteq> GasUsed (TaskHeader t) \<and> BlockNum t > 0
             then Inl (Errorf ''gas used by execution'')
             else Inr 0)
          else Inr (gasUsed' + UsedGas t))"

text \<open>
  Lines 672 to 716: the sequential branch for one task. The task is run inline, checked,
  and then applied: \<^verbatim>\<open>ApplyState4\<close>, \<^verbatim>\<open>ApplyLogsAndTraces\<close>, \<^verbatim>\<open>CommitTxNum\<close> and the
  increment of \<^verbatim>\<open>outputTxNum\<close>.
\<close>

definition seqTask :: "env \<Rightarrow> cfg \<Rightarrow> u64 \<Rightarrow> Header \<Rightarrow> exec \<Rightarrow> TxTask \<Rightarrow> exec flow" where
  "seqTask E C blockNum header s t =
     (if Error t \<noteq> None then Break s
      else
        (let t' = runTxTask E (calls s) t;
             s1 = record_call (RunTxTask t) s
         in case gasCheck (gasUsed s1) t' of
              Inl err \<Rightarrow>
                (let reported = (\<not> errorsIs err Canceled \<and> \<not> errorsIs err ErrStopped);
                     s2 = (if reported \<and> cfg_hd C
                           then record_call (ReportBadHeaderPoS (Hash header) (ParentHash header)) s1
                           else s1)
                 in if reported \<and> badBlockHalt C then Return s2 err
                    else Break (record_call (UnwindTo (blockNum - 1) (Hash header)) s2))
            | Inr g \<Rightarrow>
                (let s2 = record_call (ApplyState4 t') (s1\<lparr>gasUsed := g\<rparr>)
                 in case rs_ApplyState4 E (calls s1) t' of
                      Some e \<Rightarrow> Return s2 (Wrapped ''StateV3.ApplyState'' e)
                    | None \<Rightarrow>
                        (let s3 = record_call (ApplyLogsAndTraces t') s2
                         in case rs_ApplyLogsAndTraces E (calls s2) t' of
                              Some e \<Rightarrow> Return s3 (Wrapped ''StateV3.ApplyLogsAndTraces'' e)
                            | None \<Rightarrow>
                                (let s4 = record_call (CommitTxNum t') s3
                                 in Continue (s4\<lparr>outputTxNum := outputTxNum s4 + 1\<rparr>))))))"

text \<open>
  Lines 663 to 670: the parallel branch for one task hands it to the state for a worker
  to pick up; a task of a transaction is added only if its sender could be registered.
\<close>

definition parTask :: "env \<Rightarrow> Transaction list \<Rightarrow> exec \<Rightarrow> TxTask \<Rightarrow> exec" where
  "parTask E txs s t =
     (if 0 \<le> TxIndex t \<and> TxIndex t < int (length txs) then
        (if rs_RegisterSender E (calls s) t
         then record_call (AddWork t) (record_call (RegisterSender t) s)
         else record_call (RegisterSender t) s)
      else record_call (AddWork t) s)"

text \<open>
  Lines 624 to 719: the loop over the indices \<open>-1\<close> to \<open>len(txs)\<close> of one block; the list
  holds the indices still to do.
\<close>

fun taskLoop ::
  "env \<Rightarrow> cfg \<Rightarrow> bool \<Rightarrow> u64 \<Rightarrow> Block \<Rightarrow> int list \<Rightarrow> exec \<Rightarrow> exec flow" where
  "taskLoop E C isParallel blockNum b [] s = Continue s"
| "taskLoop E C isParallel blockNum b (txIndex # rest) s =
     (case attachTx (Transactions b) (newTxTask blockNum b (inputTxNum s) txIndex) of
        Inl e \<Rightarrow> Return s e
      | Inr t \<Rightarrow>
          (case (if isParallel then Continue (parTask E (Transactions b) s t)
                 else seqTask E C blockNum (HeaderNoCopy b) s t) of
             Continue s' \<Rightarrow>
               taskLoop E C isParallel blockNum b rest
                 (s'\<lparr>stageProgress := blockNum, inputTxNum := inputTxNum s' + 1\<rparr>)
           | Break s' \<Rightarrow> Break s'
           | Return s' e \<Rightarrow> Return s' e))"

text \<open>
  Lines 721 to 763: after the tasks of a block, the sequential path compares the
  commitment with the root of the header. A failure of \<^verbatim>\<open>agg.Flush\<close> here is a Go panic,
  which the handler installed at line 163 logs and raises again.
\<close>

definition rootCheck :: "env \<Rightarrow> cfg \<Rightarrow> args \<Rightarrow> bool \<Rightarrow> Header \<Rightarrow> exec \<Rightarrow> exec flow" where
  "rootCheck E C A isParallel header s =
     (if \<not> isParallel \<and> \<not> DiscardCommitment C then
        (case agg_ComputeCommitment E (calls s) of
           Inl e \<Rightarrow> Return (record_call ComputeCommitment s) (Wrapped ''StateV3.Apply'' e)
         | Inr rh \<Rightarrow>
             (let s1 = record_call ComputeCommitment s
              in if rh \<noteq> Root header then
                   (if badBlockHalt C then Return s1 (Errorf ''wrong trie root'')
                    else
                      (case agg_Flush E (calls s1) of
                         Some e \<Rightarrow> Return (record_call AggFlush s1) (Wrapped ''panic'' e)
                       | None \<Rightarrow>
                           (let s2 = record_call AggFlush s1;
                                s3 = (if cfg_hd C
                                      then record_call
                                             (ReportBadHeaderPoS (Hash header) (ParentHash header)) s2
                                      else s2);
                                s4 = (if maxBlockNum A > execStage_BlockNumber A
                                      then record_call
                                             (UnwindTo ((maxBlockNum A + execStage_BlockNumber A) div 2)
                                                (Hash header)) s3
                                      else s3)
                            in Break s4)))
                 else Continue s1))
      else Continue s)"

text \<open>
  Lines 764 to 846: the commit block of the sequential path. It runs when the ticker has
  a tick and the state has grown to the threshold.
\<close>

definition seqCommit :: "env \<Rightarrow> cfg \<Rightarrow> args \<Rightarrow> bool \<Rightarrow> u64 \<Rightarrow> exec \<Rightarrow> exec flow" where
  "seqCommit E C A isParallel blockNum s =
     (if \<not> isParallel then
        (let s1 = s\<lparr>outputBlockNum := blockNum\<rparr>
         in if logEvery_C E (calls s1) then
              (if rs_SizeEstimate E (calls s1) < commitThreshold C then Continue s1
               else
                 andThen (fallible (\<lambda>cs. case agg_ComputeCommitment E cs of
                                             Inl e \<Rightarrow> Some e | Inr rh \<Rightarrow> None)
                            ComputeCommitment s1) (\<lambda>s2.
                 andThen (fallible (agg_Flush E) AggFlush (record_call ClearRam s2)) (\<lambda>s3.
                 andThen (if Produce C then
                            (let s4 = record_call (BuildFilesInBackground (outputTxNum s3)) s3
                             in if agg_CanPrune E (calls s4)
                                then fallible (agg_Prune E) Prune s4
                                else Continue s4)
                          else Continue s3) (\<lambda>s5.
                 andThen (fallible (\<lambda>cs. execStage_Update E cs (outputBlockNum s5))
                            (StageUpdate (outputBlockNum s5)) s5) (\<lambda>s6.
                 if \<not> applyTx_given A then
                   andThen (fallible (tx_Commit E) TxCommit s6)
                     (fallible (chainDb_BeginRw E) BeginRw)
                 else Continue s6)))))
            else Continue s1)
      else Continue s)"

text \<open>
  Lines 583 to 620: before the tasks of a block. The parallel path looks for an error of
  the commit loop and for cancellation (its wait for the workers changes nothing here);
  the sequential path opens a change of the state stream, for the number \<^verbatim>\<open>b.NumberU64()\<close>
  of the block.
\<close>

definition stateStreamOn :: "cfg \<Rightarrow> args \<Rightarrow> u64 \<Rightarrow> bool" where
  "stateStreamOn C A block =
     (\<not> initialCycle A \<and> stateStream C \<and> maxBlockNum A - block < stateStreamLimit C)"

definition beforeTasks :: "env \<Rightarrow> cfg \<Rightarrow> args \<Rightarrow> bool \<Rightarrow> u64 \<Rightarrow> u64 \<Rightarrow> exec \<Rightarrow> exec flow" where
  "beforeTasks E C A isParallel block number s =
     (if isParallel then
        (case rwLoopErrCh E (calls s) of
           Some e \<Rightarrow> Return s e
         | None \<Rightarrow> (case ctx_Done E (calls s) of Some e \<Rightarrow> Return s e | None \<Rightarrow> Continue s))
      else if \<not> initialCycle A \<and> stateStreamOn C A block then
        fallible (\<lambda>cs. blockReader_RawTransactions E cs number) (RawTransactions number) s
      else Continue s)"

text \<open>Lines 550 to 856: one round of the loop over the blocks.\<close>

definition blockRound :: "env \<Rightarrow> cfg \<Rightarrow> args \<Rightarrow> bool \<Rightarrow> u64 \<Rightarrow> u64 \<Rightarrow> exec \<Rightarrow> exec flow" where
  "blockRound E C A isParallel block blockNum s =
     (case blockReader_BlockByNumber E (calls s) blockNum of
        Inl e \<Rightarrow> Return (record_call (BlockWithSenders blockNum) s) e
      | Inr None \<Rightarrow> Return (record_call (BlockWithSenders blockNum) s) (Errorf ''nil block'')
      | Inr (Some b) \<Rightarrow>
          andThen (beforeTasks E C A isParallel block (Number (HeaderNoCopy b))
                     (record_call (BlockWithSenders blockNum) s)) (\<lambda>s1.
          andThen (taskLoop E C isParallel blockNum b [-1..int (length (Transactions b))]
                     (s1\<lparr>gasUsed := 0\<rparr>)) (\<lambda>s2.
          andThen (rootCheck E C A isParallel (HeaderNoCopy b) s2) (\<lambda>s3.
          andThen (seqCommit E C A isParallel blockNum s3) (\<lambda>s4.
            (let s5 = (if isParallel \<and> Produce C
                       then record_call (BuildFilesInBackground (outputTxNum s4)) s4 else s4)
             in case ctx_Done E (calls s5) of
                  Some e \<Rightarrow> Return s5 e
                | None \<Rightarrow> Continue s5))))))"

text \<open>
  Line 550: \<^verbatim>\<open>for blockNum = block; blockNum <= maxBlockNum; blockNum++\<close>. The counter is
  a \<^verbatim>\<open>uint64\<close>, so with \<open>maxBlockNum = 2^64 - 1\<close> the test never fails; the loop gets a
  number of rounds it may make and gives \<open>None\<close> when they are used up. \<open>Some (Continue s)\<close>
  is the normal end, \<open>Some (Break s)\<close> is \<^verbatim>\<open>break Loop\<close>.
\<close>

fun blockLoop ::
  "nat \<Rightarrow> env \<Rightarrow> cfg \<Rightarrow> args \<Rightarrow> bool \<Rightarrow> u64 \<Rightarrow> u64 \<Rightarrow> exec \<Rightarrow> exec flow option" where
  "blockLoop 0 E C A isParallel block blockNum s = None"
| "blockLoop (Suc fuel) E C A isParallel block blockNum s =
     (if blockNum \<le> maxBlockNum A then
        (case blockRound E C A isParallel block blockNum s of
           Continue s' \<Rightarrow> blockLoop fuel E C A isParallel block (blockNum + 1) s'
         | Break s' \<Rightarrow> Some (Break s')
         | Return s' e \<Rightarrow> Some (Return s' e))
      else Some (Continue s))"

text \<open>
  Lines 858 to 893: after the loop, also after \<^verbatim>\<open>break Loop\<close>. \<^verbatim>\<open>applyTx\<close> is not nil
  here if the caller passed one or the sequential path opened one.
\<close>

definition afterLoop :: "env \<Rightarrow> cfg \<Rightarrow> args \<Rightarrow> bool \<Rightarrow> exec \<Rightarrow> exec flow" where
  "afterLoop E C A isParallel s =
     andThen (if isParallel then fallible (rwLoopG_Wait E) WaitRwLoop s
              else andThen (fallible (agg_Flush E) AggFlush s)
                     (\<lambda>s1. fallible (\<lambda>cs. execStage_Update E cs (stageProgress s1))
                             (StageUpdate (stageProgress s1)) s1)) (\<lambda>s2.
       (let s3 = (if isParallel \<and> Produce C
                  then record_call (BuildFilesInBackground (outputTxNum s2)) s2 else s2)
        in if \<not> applyTx_given A \<and> \<not> isParallel
           then fallible (tx_Commit E) TxCommit s3
           else Continue s3))"

text \<open>
  Lines 157 to 241: the start. The first block is the one after the stage's progress and
  the first transaction number is the one after the last of that progress.
\<close>

definition firstBlock :: "args \<Rightarrow> u64" where
  "firstBlock A = (if execStage_BlockNumber A > 0 then execStage_BlockNumber A + 1 else 0)"

definition startExec :: "env \<Rightarrow> args \<Rightarrow> bool \<Rightarrow> exec flow" where
  "startExec E A isParallel =
     (let s0 = \<lparr>calls = [], outputTxNum = 0, inputTxNum = 0,
                stageProgress = (if execStage_BlockNumber A > 0 then execStage_BlockNumber A else 0),
                outputBlockNum = 0, gasUsed = 0, blockComplete = True, rws = []\<rparr>
      in andThen (if \<not> applyTx_given A \<and> \<not> isParallel
                  then fallible (chainDb_BeginRw E) BeginRw s0 else Continue s0) (\<lambda>s1.
         (case TxNums_Max E (calls s1) (maxBlockNum A) of
            Inl e \<Rightarrow> Return (record_call (TxNumsMax (maxBlockNum A)) s1) e
          | Inr maxTxNum \<Rightarrow>
              (let s2 = record_call (TxNumsMax (maxBlockNum A)) s1
               in if firstBlock A > 0 then
                    (case TxNums_Max E (calls s2) (execStage_BlockNumber A) of
                       Inl e \<Rightarrow> Return (record_call (TxNumsMax (execStage_BlockNumber A)) s2) e
                     | Inr n \<Rightarrow>
                         Continue ((record_call (TxNumsMax (execStage_BlockNumber A)) s2)
                                     \<lparr>outputTxNum := n + 1, inputTxNum := n + 1\<rparr>))
                  else Continue s2))))"

text \<open>
  The function with its flag as a parameter; the result is the final state with the
  error returned, if any.
\<close>

definition finish :: "exec flow \<Rightarrow> exec \<times> error option" where
  "finish r = (case r of Continue s \<Rightarrow> (s, None) | Break s \<Rightarrow> (s, None) | Return s e \<Rightarrow> (s, Some e))"

definition execBody :: "nat \<Rightarrow> env \<Rightarrow> cfg \<Rightarrow> args \<Rightarrow> bool \<Rightarrow> (exec \<times> error option) option" where
  "execBody fuel E C A isParallel =
     (case startExec E A isParallel of
        Continue s \<Rightarrow>
          (case blockLoop fuel E C A isParallel (firstBlock A) (firstBlock A)
                  (if isParallel then record_call StartRwLoop s else s) of
             None \<Rightarrow> None
           | Some (Return s' e) \<Rightarrow> Some (s', Some e)
           | Some (Continue s') \<Rightarrow> Some (finish (afterLoop E C A isParallel s'))
           | Some (Break s') \<Rightarrow> Some (finish (afterLoop E C A isParallel s')))
      | r \<Rightarrow> Some (finish r))"

text \<open>Line 156: \<^verbatim>\<open>parallel = false\<close> comes first, whatever the caller passed.\<close>

definition ExecV3 :: "nat \<Rightarrow> env \<Rightarrow> cfg \<Rightarrow> args \<Rightarrow> bool \<Rightarrow> (exec \<times> error option) option" where
  "ExecV3 fuel E C A isParallel = (let isParallel = False in execBody fuel E C A isParallel)"

section \<open>The commit sequence of the parallel \<^verbatim>\<open>rwLoop\<close>\<close>



section \<open>Reconstitution: \<^verbatim>\<open>reconstituteStep\<close> and \<^verbatim>\<open>ReconstituteState\<close>\<close>

text \<open>
  A Go byte slice is nil or holds bytes: \<open>None\<close> is the nil slice. \<open>sliceReset old x\<close> is
  \<^verbatim>\<open>append(old[:0], x...)\<close>: appending nothing to a nil slice gives the nil slice
  back. \<open>sliceBytes\<close> gives the bytes, which is all \<^verbatim>\<open>bytes.Equal\<close> and \<^verbatim>\<open>len\<close> see.
\<close>

definition sliceReset :: "bytes option \<Rightarrow> bytes \<Rightarrow> bytes option" where
  "sliceReset old x = (if old = None \<and> x = [] then None else Some x)"

definition sliceBytes :: "bytes option \<Rightarrow> bytes" where
  "sliceBytes x = (case x of None \<Rightarrow> [] | Some b \<Rightarrow> b)"

text \<open>
  The state of the reconstitution: the calls, the three tables of the main store and the
  two variables \<^verbatim>\<open>lastKey\<close> and \<^verbatim>\<open>lastVal\<close> of the final merge.
\<close>

record recon = log +
  mainStore :: "tableName \<Rightarrow> bytes \<rightharpoonup> bytes"
  lastKey :: "bytes option"
  lastVal :: "bytes option"

definition txPut :: "env \<Rightarrow> tableName \<Rightarrow> bytes \<Rightarrow> bytes \<Rightarrow> recon \<Rightarrow> recon flow" where
  "txPut E T k v s =
     (case tx_Put E (calls s) T k v of
        Some e \<Rightarrow> Return (record_call (Put T k v) s) e
      | None \<Rightarrow> Continue (record_call (Put T k v) (s\<lparr>mainStore := (mainStore s)(T := (mainStore s T)(k \<mapsto> v))\<rparr>)))"

definition txDelete :: "env \<Rightarrow> tableName \<Rightarrow> bytes \<Rightarrow> recon \<Rightarrow> recon flow" where
  "txDelete E T k s =
     (case tx_Delete E (calls s) T k of
        Some e \<Rightarrow> Return (record_call (Delete T k) s) e
      | None \<Rightarrow> Continue (record_call (Delete T k) (s\<lparr>mainStore := (mainStore s)(T := (mainStore s T)(k := None))\<rparr>)))"

text \<open>
  Modelled from the spec: \<^verbatim>\<open>etl.Collector\<close> is not in this file. The spec has the
  collected records merged in sorted order and says that a nil value becomes a delete. A
  collector is the list of the records collected; \<open>sortableBuffer\<close> gives them in
  ascending order of the key, records of one key in the order of collection, and
  \<open>oldestEntryBuffer\<close> keeps the first record of every key only. \<open>etlNext\<close> is the
  function \<^verbatim>\<open>next\<close> that \<^verbatim>\<open>Load\<close> passes to the load function.
\<close>

definition sortableBuffer :: "(bytes \<times> bytes option) list \<Rightarrow> (bytes \<times> bytes option) list" where
  "sortableBuffer es = sort_key fst es"

function oldestEntries :: "(bytes \<times> bytes option) list \<Rightarrow> (bytes \<times> bytes option) list" where
  "oldestEntries [] = []"
| "oldestEntries (e # es) = e # oldestEntries (filter (\<lambda>e'. fst e' \<noteq> fst e) es)"
  by pat_completeness auto
termination
  by (relation "measure length") (auto simp: less_Suc_eq_le)

definition oldestEntryBuffer :: "(bytes \<times> bytes option) list \<Rightarrow> (bytes \<times> bytes option) list" where
  "oldestEntryBuffer es = sort_key fst (oldestEntries es)"

definition etlNext :: "env \<Rightarrow> tableName \<Rightarrow> bytes \<Rightarrow> bytes option \<Rightarrow> recon \<Rightarrow> recon flow" where
  "etlNext E T k v s = (case v of None \<Rightarrow> txDelete E T k s | Some x \<Rightarrow> txPut E T k x s)"

text \<open>
  Lines 1374 to 1425: the records of the scratch tables with the transaction number moved
  behind the domain key. \<^verbatim>\<open>k[8:]\<close> panics on a key shorter than 8 bytes. A record of a
  \<open>D\<close> table is collected with a nil value.
\<close>

definition collectR :: "table \<Rightarrow> error + (bytes \<times> bytes option) list" where
  "collectR T =
     (if list_ex (\<lambda>(k, v). length k < 8) T then Inl (Errorf ''panic: slice bounds out of range'')
      else Inr (map (\<lambda>(k, v). (drop 8 k @ take 8 k, Some v)) T))"

definition collectD :: "table \<Rightarrow> (bytes \<times> bytes option) list" where
  "collectD T = map (\<lambda>(k, v). (v @ k, None)) T"

definition collect :: "table \<Rightarrow> table \<Rightarrow> error + (bytes \<times> bytes option) list" where
  "collect R D = (case collectR R of Inl e \<Rightarrow> Inl e | Inr es \<Rightarrow> Inr (es @ collectD D))"

text \<open>
  Lines 1456 to 1471 (and the same at 1488 and 1520): the load function, called for
  every collected record in sorted order. When the domain key changes, the pending key
  goes to \<^verbatim>\<open>next\<close> with the pending value; the value of the record becomes the pending one.
\<close>

definition loadFunc :: "env \<Rightarrow> tableName \<Rightarrow> recon \<Rightarrow> bytes \<times> bytes option \<Rightarrow> recon flow" where
  "loadFunc E T s kv =
     (case kv of (k, v) \<Rightarrow>
        if length k < 8 then Return s (Errorf ''panic: slice bounds out of range'')
        else
          andThen
            (if take (length k - 8) k \<noteq> sliceBytes (lastKey s) then
               andThen (case lastKey s of
                          Some lk \<Rightarrow> etlNext E T lk (lastVal s) s
                        | None \<Rightarrow> Continue s)
                 (\<lambda>s1. Continue (s1\<lparr>lastKey := sliceReset (lastKey s1) (take (length k - 8) k)\<rparr>))
             else Continue s)
            (\<lambda>s2. Continue (s2\<lparr>lastVal := (case v of None \<Rightarrow> None
                                              | Some x \<Rightarrow> sliceReset (lastVal s2) x)\<rparr>)))"

fun loadAll :: "env \<Rightarrow> tableName \<Rightarrow> (bytes \<times> bytes option) list \<Rightarrow> recon \<Rightarrow> recon flow" where
  "loadAll E T [] s = Continue s"
| "loadAll E T (kv # kvs) s = andThen (loadFunc E T s kv) (loadAll E T kvs)"

text \<open>
  Lines 1454 to 1487 (and the same for the other two tables): the load of one collector
  into its table, and the write of the last pending key: a put if the pending value has
  bytes, a delete otherwise.
\<close>

definition loadTable :: "env \<Rightarrow> tableName \<Rightarrow> (bytes \<times> bytes option) list \<Rightarrow> recon \<Rightarrow> recon flow" where
  "loadTable E T es s =
     andThen (loadAll E T es (s\<lparr>lastKey := None, lastVal := None\<rparr>)) (\<lambda>s1.
       case lastKey s1 of
         None \<Rightarrow> Continue s1
       | Some lk \<Rightarrow>
           if length (sliceBytes (lastVal s1)) > 0 then txPut E T lk (sliceBytes (lastVal s1)) s1
           else txDelete E T lk s1)"

text \<open>
  Lines 1363 to 1555: the transposition at the end of a step. The scratch tables are read
  and collected, then cleared, and the collectors are loaded into the main store inside
  one \<^verbatim>\<open>chainDb.Update\<close>, which rolls back what was written when its function fails.
\<close>

definition transpose :: "env \<Rightarrow> recon \<Rightarrow> recon flow" where
  "transpose E s =
     andThen (fallible (db_View E) ScratchView s) (\<lambda>s1.
       (let sc = scratch E (calls s1)
        in case (collect (PlainStateR sc) (PlainStateD sc), collect (CodeR sc) (CodeD sc),
                 collect (PlainContractR sc) (PlainContractD sc)) of
             (Inr ps, Inr cd, Inr pc) \<Rightarrow>
               andThen (fallible (db_ClearBuckets E) ClearBuckets s1) (\<lambda>s2.
                 (case andThen (loadTable E PlainState (sortableBuffer ps) s2) (\<lambda>s3.
                       andThen (loadTable E Code (oldestEntryBuffer cd) s3) (\<lambda>s4.
                       andThen (loadTable E PlainContractCode (sortableBuffer pc) s4)
                         (fallible (chainDb_Commit E) ChainDbCommit))) of
                    Return s5 e \<Rightarrow> Return (s5\<lparr>mainStore := mainStore s2\<rparr>) e
                  | r \<Rightarrow> r))
           | (Inl e, _, _) \<Rightarrow> Return s1 e
           | (_, Inl e, _) \<Rightarrow> Return s1 e
           | (_, _, Inl e) \<Rightarrow> Return s1 e))"

text \<open>
  Lines 1053 to 1084: the block range of a step. \<open>as\<close> is the pair \<^verbatim>\<open>as.TxNumRange()\<close>.
  The result is the first block, the last block and the first transaction number.
\<close>

definition stepRange ::
  "env \<Rightarrow> bool \<Rightarrow> u64 \<times> u64 \<Rightarrow> u64 \<Rightarrow> recon \<Rightarrow> recon \<times> (error + u64 \<times> u64 \<times> u64)" where
  "stepRange E isLast as blockNum s =
     (case TxNums_FindBlockNum E (calls s) (fst as) of
        Inl e \<Rightarrow> (record_call (FindBlockNum (fst as)) s, Inl e)
      | Inr (startOk, startBlockNum) \<Rightarrow>
          (let s1 = record_call (FindBlockNum (fst as)) s;
               r = (if startBlockNum > 0 then
                      (case TxNums_Min E (calls s1) (startBlockNum - 1) of
                         Inl e \<Rightarrow> (record_call (TxNumsMin (startBlockNum - 1)) s1, Inl e)
                       | Inr n \<Rightarrow>
                           (record_call (TxNumsMin (startBlockNum - 1)) s1,
                            Inr (startBlockNum - 1, n)))
                    else (s1, Inr (startBlockNum, fst as)))
           in case r of
                (s2, Inl e) \<Rightarrow> (s2, Inl e)
              | (s2, Inr (startBlockNum', startTxNum)) \<Rightarrow>
                  (case TxNums_FindBlockNum E (calls s2) (snd as) of
                     Inl e \<Rightarrow> (record_call (FindBlockNum (snd as)) s2, Inl e)
                   | Inr (endOk, endBlockNum) \<Rightarrow>
                       (let s3 = record_call (FindBlockNum (snd as)) s2
                        in if \<not> startOk then
                             (s3, Inl (Errorf ''step startTxNum not found in snapshot blocks''))
                           else if \<not> endOk then
                             (s3, Inl (Errorf ''step endTxNum not found in snapshot blocks''))
                           else
                             (s3, Inr (startBlockNum',
                                       if isLast then blockNum else endBlockNum, startTxNum))))))"

text \<open>
  Lines 1088 to 1361: the replay. The three scans of the history are calls that may fail.
  The workers, the committing routine and the producer loop of lines 1117 to 1349 run
  concurrently; their outcome for the step is one answer of the environment, recorded as
  \<open>ReplayBlocks\<close> with the block range and the first transaction number. The last flush
  into the scratch store follows.
\<close>

definition replay :: "env \<Rightarrow> u64 \<times> u64 \<times> u64 \<Rightarrow> recon \<Rightarrow> recon flow" where
  "replay E rng s =
     (case rng of (startBlockNum, endBlockNum, startTxNum) \<Rightarrow>
        andThen (fallible (scanWorker_BitmapAccounts E) BitmapAccounts s) (\<lambda>s1.
        andThen (fallible (scanWorker_BitmapStorage E) BitmapStorage s1) (\<lambda>s2.
        andThen (fallible (scanWorker_BitmapCode E) BitmapCode s2) (\<lambda>s3.
        andThen (fallible (replayBlocks E) (ReplayBlocks startBlockNum endBlockNum startTxNum) s3)
          (fallible (rs_Flush E) ReconFlush)))))"

definition reconstituteStep :: "env \<Rightarrow> bool \<Rightarrow> u64 \<times> u64 \<Rightarrow> u64 \<Rightarrow> recon \<Rightarrow> recon flow" where
  "reconstituteStep E isLast as blockNum s =
     (case stepRange E isLast as blockNum s of
        (s1, Inl e) \<Rightarrow> Return s1 e
      | (s1, Inr rng) \<Rightarrow> andThen (replay E rng s1) (transpose E))"

text \<open>Lines 1637 to 1645: the steps in turn; the last one gets \<^verbatim>\<open>last = true\<close>.\<close>

fun stepsLoop :: "env \<Rightarrow> u64 \<Rightarrow> (u64 \<times> u64) list \<Rightarrow> recon \<Rightarrow> recon flow" where
  "stepsLoop E blockNum [] s = Continue s"
| "stepsLoop E blockNum (as # rest) s =
     andThen (reconstituteStep E (rest = []) as blockNum s) (stepsLoop E blockNum rest)"

text \<open>
  Lines 1646 to 1698: after the steps, the fill worker collects the latest values of the
  history; the collectors are loaded as they are (the identity load function) and the
  progress of the stage is recorded, all inside one \<^verbatim>\<open>chainDb.Update\<close>.
\<close>

fun identityLoad :: "env \<Rightarrow> tableName \<Rightarrow> (bytes \<times> bytes option) list \<Rightarrow> recon \<Rightarrow> recon flow" where
  "identityLoad E T [] s = Continue s"
| "identityLoad E T ((k, v) # kvs) s = andThen (etlNext E T k v s) (identityLoad E T kvs)"

definition fill :: "env \<Rightarrow> u64 \<Rightarrow> recon \<Rightarrow> recon flow" where
  "fill E blockNum s =
     andThen (fallible (fillWorker_FillAccounts E) FillAccounts s) (\<lambda>s1.
     andThen (fallible (fillWorker_FillStorage E) FillStorage s1) (\<lambda>s2.
     andThen (fallible (fillWorker_FillCode E) FillCode s2) (\<lambda>s3.
       (case andThen (identityLoad E PlainState
                        (sortableBuffer (fillWorker_collected E (calls s3) PlainState)) s3) (\<lambda>s4.
             andThen (identityLoad E Code
                        (oldestEntryBuffer (fillWorker_collected E (calls s3) Code)) s4) (\<lambda>s5.
             andThen (identityLoad E PlainContractCode
                        (sortableBuffer (fillWorker_collected E (calls s3) PlainContractCode)) s5) (\<lambda>s6.
             andThen (fallible (\<lambda>cs. execStage_Update E cs blockNum) (StageUpdate blockNum) s6)
               (fallible (chainDb_Commit E) ChainDbCommit)))) of
          Return s7 e \<Rightarrow> Return (s7\<lparr>mainStore := mainStore s3\<rparr>) e
        | r \<Rightarrow> r))))"

text \<open>
  Lines 1570 to 1701. The block that the last step ends in is looked up first; \<open>blockNum\<close>
  is the block before it and the stage's progress at the end.
\<close>

definition ReconstituteState :: "env \<Rightarrow> recon \<Rightarrow> recon flow" where
  "ReconstituteState E s =
     andThen (fallible (agg_MergeLoop E) MergeLoop s) (\<lambda>s1.
       (case agg_MakeSteps E (calls s1) of
          Inl e \<Rightarrow> Return (record_call MakeSteps s1) e
        | Inr aggSteps \<Rightarrow>
            (let s2 = record_call MakeSteps s1
             in if aggSteps = [] then Continue s2
                else
                  (case TxNums_FindBlockNum E (calls s2) (snd (last aggSteps)) of
                     Inl e \<Rightarrow> Return (record_call (FindBlockNum (snd (last aggSteps))) s2) e
                   | Inr (ok, blockNum) \<Rightarrow>
                       (let s3 = record_call (FindBlockNum (snd (last aggSteps))) s2
                        in if \<not> ok then
                             Return (record_call TxNumsLast s3)
                               (Errorf ''blockNum for mininmaxTxNum not found'')
                           else if blockNum = 0 then
                             Return s3 (Errorf ''not enough transactions in the history data'')
                           else
                             (case TxNums_Max E (calls s3) (blockNum - 1) of
                                Inl e \<Rightarrow> Return (record_call (TxNumsMax (blockNum - 1)) s3) e
                              | Inr txNum \<Rightarrow>
                                  andThen (fallible (openReconDb E) OpenReconDb
                                             (record_call (TxNumsMax (blockNum - 1)) s3)) (\<lambda>s4.
                                  andThen (stepsLoop E (blockNum - 1) aggSteps s4)
                                    (fill E (blockNum - 1)))))))))"

section \<open>Observations on the calls\<close>

text \<open>
  The transaction numbers passed to \<^verbatim>\<open>CommitTxNum\<close>, the tasks passed to
  \<^verbatim>\<open>ApplyState4\<close>, and what it means for a list of numbers to be a run without gaps
  from \<open>n\<close>.
\<close>

definition commitTxNums :: "call list \<Rightarrow> u64 list" where
  "commitTxNums cs = concat (map (\<lambda>c. case c of CommitTxNum t \<Rightarrow> [TxNum t] | _ \<Rightarrow> []) cs)"

definition applyStateTasks :: "call list \<Rightarrow> TxTask list" where
  "applyStateTasks cs = concat (map (\<lambda>c. case c of ApplyState4 t \<Rightarrow> [t] | _ \<Rightarrow> []) cs)"

definition contiguousFrom :: "u64 \<Rightarrow> u64 list \<Rightarrow> bool" where
  "contiguousFrom n xs = (xs = map (\<lambda>k. n + of_nat k) [0..<length xs])"

definition newCalls :: "'a log_scheme \<Rightarrow> 'b log_scheme \<Rightarrow> call list" where
  "newCalls s s' = drop (length (calls s)) (calls s')"

definition applyStateTxNums :: "call list \<Rightarrow> u64 list" where
  "applyStateTxNums cs = map TxNum (applyStateTasks cs)"

text \<open>What one pass of the loop body, and what a run of the loop, does to the state.\<close>

definition stepEffect :: "prq \<Rightarrow> TxTask \<Rightarrow> prq \<Rightarrow> bool" where
  "stepEffect s t s' =
     (\<exists>new. calls s' = calls s @ new \<and>
        (\<forall>t'. ApplyState4 t' \<in> set new \<longrightarrow> Final t' \<and> TxNum t' = TxNum t) \<and>
        (commitTxNums new = [] \<and> outputTxNum s' = outputTxNum s \<or>
         commitTxNums new = [TxNum t] \<and> outputTxNum s' = outputTxNum s + 1))"

definition runEffect :: "prq \<Rightarrow> prq \<Rightarrow> bool" where
  "runEffect s s' =
     (\<exists>new. calls s' = calls s @ new \<and>
        contiguousFrom (outputTxNum s) (commitTxNums new) \<and>
        outputTxNum s' = outputTxNum s + of_nat (length (commitTxNums new)) \<and>
        (\<forall>t. ApplyState4 t \<in> set new \<longrightarrow>
           Final t \<and> (TxNum t \<in> set (commitTxNums new) \<or> TxNum t = outputTxNum s')))"

text \<open>
  The calls that handle a conflict: the re-execution in place and the retry. \<open>firstInPlace\<close>
  says that the first of them is a re-execution and all others are retries.
\<close>

definition isRun :: "call \<Rightarrow> bool" where
  "isRun c = (case c of RunTxTask t \<Rightarrow> True | _ \<Rightarrow> False)"

definition isReTry :: "call \<Rightarrow> bool" where
  "isReTry c = (case c of ReTry t \<Rightarrow> True | _ \<Rightarrow> False)"

definition conflictCalls :: "call list \<Rightarrow> call list" where
  "conflictCalls cs = filter (\<lambda>c. isRun c \<or> isReTry c) cs"

definition firstInPlace :: "call list \<Rightarrow> bool" where
  "firstInPlace cs = (case cs of [] \<Rightarrow> True | c # rest \<Rightarrow> isRun c \<and> list_all isReTry rest)"

definition conflictsHandled :: "bool \<Rightarrow> int \<Rightarrow> call list \<Rightarrow> bool" where
  "conflictsHandled cr i cs =
     (if cr then (if i > 0 then list_all isReTry cs else firstInPlace cs) else list_all isRun cs)"

definition isApplyCall :: "call \<Rightarrow> bool" where
  "isApplyCall c =
     (case c of ApplyState4 t \<Rightarrow> True | ApplyLogsAndTraces t \<Rightarrow> True | CommitTxNum t \<Rightarrow> True
      | _ \<Rightarrow> False)"

definition ranTasks :: "call list \<Rightarrow> TxTask list" where
  "ranTasks cs = concat (map (\<lambda>c. case c of RunTxTask t \<Rightarrow> [t] | _ \<Rightarrow> []) cs)"

text \<open>
  A durable commit at the end of a block: reading the calls in order, the last task whose
  state was applied before every \<open>TxCommit\<close> is a final one. \<open>b\<close> says whether the calls
  start at the end of a block.
\<close>

fun commitsAtBlockEnd :: "bool \<Rightarrow> call list \<Rightarrow> bool" where
  "commitsAtBlockEnd b [] = True"
| "commitsAtBlockEnd b (ApplyState4 t # cs) = commitsAtBlockEnd (Final t) cs"
| "commitsAtBlockEnd b (CommitTxNum t # cs) = commitsAtBlockEnd (Final t) cs"
| "commitsAtBlockEnd b (TxCommit # cs) = (b \<and> commitsAtBlockEnd b cs)"
| "commitsAtBlockEnd b (c # cs) = commitsAtBlockEnd b cs"

fun atBlockEnd :: "bool \<Rightarrow> call list \<Rightarrow> bool" where
  "atBlockEnd b [] = b"
| "atBlockEnd b (ApplyState4 t # cs) = atBlockEnd (Final t) cs"
| "atBlockEnd b (CommitTxNum t # cs) = atBlockEnd (Final t) cs"
| "atBlockEnd b (c # cs) = atBlockEnd b cs"

text \<open>
  The tasks a block's loop hands to the apply worker: the \<open>k\<close>-th of them has the \<open>k\<close>-th
  index and the \<open>k\<close>-th number after the first.
\<close>

definition emittedFrom :: "u64 \<Rightarrow> Block \<Rightarrow> u64 \<Rightarrow> int list \<Rightarrow> TxTask list \<Rightarrow> bool" where
  "emittedFrom bn b n idxs ts =
     (length ts \<le> length idxs \<and>
      (\<forall>k < length ts.
         TxIndex (ts ! k) = idxs ! k \<and> TxNum (ts ! k) = n + of_nat k \<and> BlockNum (ts ! k) = bn \<and>
         Final (ts ! k) = (idxs ! k = int (length (Transactions b)))))"

text \<open>
  What the pieces around the tasks of a block add to the calls: none of them runs or
  applies a task, and only the commit block commits.
\<close>

definition quiet :: "call list \<Rightarrow> bool" where
  "quiet cs = (ranTasks cs = [] \<and> list_all (\<lambda>c. \<not> isApplyCall c) cs)"

text \<open>A piece that keeps quiet, followed by another one that does.\<close>

definition keepsQuiet :: "exec \<Rightarrow> exec flow \<Rightarrow> bool" where
  "keepsQuiet s r =
     (\<exists>new. calls (flowState r) = calls s @ new \<and> quiet new \<and>
        inputTxNum (flowState r) = inputTxNum s)"

text \<open>
  Block-then-index order: the task after a final one opens the next block, any other one
  has the next index of the same block.
\<close>

definition follows :: "TxTask \<Rightarrow> TxTask \<Rightarrow> bool" where
  "follows t u =
     (if Final t then BlockNum u = BlockNum t + 1 \<and> TxIndex u = -1
      else BlockNum u = BlockNum t \<and> TxIndex u = TxIndex t + 1)"

fun inOrder :: "TxTask list \<Rightarrow> bool" where
  "inOrder (t # u # ts) = (follows t u \<and> inOrder (u # ts))"
| "inOrder ts = True"

definition appliedGas :: "call list \<Rightarrow> u64" where
  "appliedGas cs = sum_list (map UsedGas (applyStateTasks cs))"

text \<open>The tasks run and the commits made by one round of the block loop.\<close>

definition roundTasks :: "u64 \<Rightarrow> u64 \<Rightarrow> TxTask list \<Rightarrow> bool" where
  "roundTasks bn n ts =
     (contiguousFrom n (map TxNum ts) \<and> inOrder ts \<and>
      (ts = [] \<or> TxIndex (hd ts) = -1 \<and> BlockNum (hd ts) = bn))"

text \<open>The tasks whose state, logs or number went to the shared state.\<close>

definition appliedTasks :: "call list \<Rightarrow> TxTask list" where
  "appliedTasks cs =
     concat (map (\<lambda>c. case c of ApplyState4 t \<Rightarrow> [t] | ApplyLogsAndTraces t \<Rightarrow> [t]
                          | CommitTxNum t \<Rightarrow> [t] | _ \<Rightarrow> []) cs)"

definition noneFailed :: "call list \<Rightarrow> bool" where
  "noneFailed cs = list_all (\<lambda>t. Error t = None) (appliedTasks cs)"

text \<open>The tasks run between a state and the outcome of a step from it.\<close>

definition tasksRun :: "exec \<Rightarrow> exec flow \<Rightarrow> TxTask list" where
  "tasksRun s r = ranTasks (newCalls s (flowState r))"

text \<open>
  For the reconstitution: the calls that only look up block and transaction numbers, a
  lookup that did not find a block, and an outcome that returns an error.
\<close>

definition isLookup :: "call \<Rightarrow> bool" where
  "isLookup c = (case c of FindBlockNum n \<Rightarrow> True | TxNumsMin n \<Rightarrow> True | _ \<Rightarrow> False)"

definition notFound :: "error + bool \<times> u64 \<Rightarrow> bool" where
  "notFound r = (case r of Inl e \<Rightarrow> True | Inr (ok, b) \<Rightarrow> \<not> ok)"

definition isReturn :: "'a flow \<Rightarrow> bool" where
  "isReturn r = (case r of Return s e \<Rightarrow> True | _ \<Rightarrow> False)"

section \<open>Concrete inputs\<close>

text \<open>
  An environment in which nothing fails and nothing is found, and small tasks; the
  examples below change single answers of it.
\<close>

definition header0 :: Header where
  "header0 = \<lparr>Number = 0, GasUsed = 0, Root = [], Hash = [1], ParentHash = [0]\<rparr>"

definition mkTask :: "u64 \<Rightarrow> u64 \<Rightarrow> int \<Rightarrow> bool \<Rightarrow> TxTask" where
  "mkTask bn n idx fin =
     \<lparr>BlockNum = bn, TxNum = n, TxIndex = idx, Final = fin, TaskHeader = header0,
      BlockHash = [1], BlockRoot = [], Tx = None, Sender = None, Error = None, UsedGas = 0\<rparr>"

definition noScratch :: scratchTables where
  "noScratch = \<lparr>PlainStateR = [], PlainStateD = [], CodeR = [], CodeD = [],
                 PlainContractR = [], PlainContractD = []\<rparr>"

definition envOK :: env where
  "envOK =
     \<lparr>rs_ReadsValid = (\<lambda>cs t. True),
      applyWorker_RunTxTask = (\<lambda>cs t. (None, 0)),
      rs_ApplyState4 = (\<lambda>cs t. None),
      rs_ApplyLogsAndTraces = (\<lambda>cs t. None),
      rs_CommitTxNum = (\<lambda>cs t. 0),
      rs_RegisterSender = (\<lambda>cs t. True),
      rs_SizeEstimate = (\<lambda>cs. 0),
      rws_arrived = (\<lambda>cs. []),
      chainDb_BeginRw = (\<lambda>cs. None),
      TxNums_Max = (\<lambda>cs n. Inr 0),
      blockReader_BlockByNumber = (\<lambda>cs n. Inr None),
      blockReader_RawTransactions = (\<lambda>cs n. None),
      agg_ComputeCommitment = (\<lambda>cs. Inr []),
      agg_Flush = (\<lambda>cs. None),
      agg_CanPrune = (\<lambda>cs. False),
      agg_Prune = (\<lambda>cs. None),
      execStage_Update = (\<lambda>cs n. None),
      tx_Commit = (\<lambda>cs. None),
      logEvery_C = (\<lambda>cs. False),
      ctx_Done = (\<lambda>cs. None),
      rwLoopErrCh = (\<lambda>cs. None),
      rwLoopG_Wait = (\<lambda>cs. None),
      agg_MergeLoop = (\<lambda>cs. None),
      agg_MakeSteps = (\<lambda>cs. Inr []),
      TxNums_FindBlockNum = (\<lambda>cs n. Inr (True, 0)),
      TxNums_Min = (\<lambda>cs n. Inr 0),
      openReconDb = (\<lambda>cs. None),
      scanWorker_BitmapAccounts = (\<lambda>cs. None),
      scanWorker_BitmapStorage = (\<lambda>cs. None),
      scanWorker_BitmapCode = (\<lambda>cs. None),
      replayBlocks = (\<lambda>cs. None),
      rs_Flush = (\<lambda>cs. None),
      db_View = (\<lambda>cs. None),
      scratch = (\<lambda>cs. noScratch),
      db_ClearBuckets = (\<lambda>cs. None),
      tx_Put = (\<lambda>cs T k v. None),
      tx_Delete = (\<lambda>cs T k. None),
      chainDb_Commit = (\<lambda>cs. None),
      fillWorker_FillAccounts = (\<lambda>cs. None),
      fillWorker_FillStorage = (\<lambda>cs. None),
      fillWorker_FillCode = (\<lambda>cs. None),
      fillWorker_collected = (\<lambda>cs T. [])\<rparr>"

definition heap56 :: "TxTask list" where
  "heap56 = [mkTask 1 5 0 False, mkTask 1 6 1 True]"

text \<open>
  In \<open>envConflict\<close> no read set is valid; in \<open>envRevert\<close>, in addition, every execution by
  the apply worker reports an error.
\<close>

definition envConflict :: env where
  "envConflict = envOK\<lparr>rs_ReadsValid := (\<lambda>cs t. False)\<rparr>"

definition envRevert :: env where
  "envRevert = envOK\<lparr>rs_ReadsValid := (\<lambda>cs t. False),
                     applyWorker_RunTxTask := (\<lambda>cs t. (Some (Errorf ''reverted''), 0))\<rparr>"

definition outcome :: "(exec \<times> error option) option \<Rightarrow> (call list \<times> error option) option" where
  "outcome r = map_option (\<lambda>(s, e). (calls s, e)) r"

definition headerOf :: "u64 \<Rightarrow> u64 \<Rightarrow> Header" where
  "headerOf n g = \<lparr>Number = n, GasUsed = g, Root = [7], Hash = [1], ParentHash = [0]\<rparr>"

definition emptyBlock :: "u64 \<Rightarrow> u64 \<Rightarrow> Block" where
  "emptyBlock n g = \<lparr>HeaderNoCopy = headerOf n g, Transactions = []\<rparr>"

definition tx0 :: Transaction where
  "tx0 = \<lparr>AsMessage = None, GetSender = Some [5], SignerSender = Inr [5]\<rparr>"

definition oneTxBlock :: "u64 \<Rightarrow> Block" where
  "oneTxBlock n = \<lparr>HeaderNoCopy = headerOf n 0, Transactions = [tx0]\<rparr>"

definition cfg0 :: cfg where
  "cfg0 = \<lparr>badBlockHalt = False, cfg_hd = False, stateStream = False, commitThreshold = 0,
           Produce = False, DiscardCommitment = False, stateStreamLimit = 0\<rparr>"

definition argsGenesis :: args where
  "argsGenesis = \<lparr>execStage_BlockNumber = 0, applyTx_given = False, maxBlockNum = 0,
                  initialCycle = True\<rparr>"

definition argsBlock2 :: args where
  "argsBlock2 = \<lparr>execStage_BlockNumber = 1, applyTx_given = False, maxBlockNum = 2,
                 initialCycle = True\<rparr>"

definition envWrongRoot :: env where
  "envWrongRoot = envOK\<lparr>blockReader_BlockByNumber := (\<lambda>cs n. Inr (Some (emptyBlock n 0))),
                        agg_ComputeCommitment := (\<lambda>cs. Inr [9])\<rparr>"

definition envTxFails :: env where
  "envTxFails = envOK\<lparr>blockReader_BlockByNumber := (\<lambda>cs n. Inr (Some (oneTxBlock n))),
                      agg_ComputeCommitment := (\<lambda>cs. Inr [7]),
                      applyWorker_RunTxTask :=
                        (\<lambda>cs t. if TxIndex t = 0 then (Some (Errorf ''reverted''), 0) else (None, 0))\<rparr>"

definition envGasMismatch :: env where
  "envGasMismatch = envOK\<lparr>blockReader_BlockByNumber := (\<lambda>cs n. Inr (Some (emptyBlock n 5))),
                          agg_ComputeCommitment := (\<lambda>cs. Inr [7])\<rparr>"


text \<open>The state of the driver when it enters the loop over the blocks, for \<open>argsBlock2\<close>.\<close>

definition execStart :: exec where
  "execStart = \<lparr>calls = [BeginRw, TxNumsMax 2, TxNumsMax 1], outputTxNum = 1, inputTxNum = 1,
                stageProgress = 1, outputBlockNum = 0, gasUsed = 0, blockComplete = True, rws = []\<rparr>"

text \<open>Blocks of one transaction, where every run of a task reports an error.\<close>

definition envRevertBlocks :: env where
  "envRevertBlocks = envRevert\<lparr>blockReader_BlockByNumber := (\<lambda>cs n. Inr (Some (oneTxBlock n)))\<rparr>"




text \<open>
  For the reconstitution: the state at the start, with an empty main store, and an
  environment with one step, from 0 to 10, in which no transaction number is found.
\<close>

definition recon0 :: recon where
  "recon0 = \<lparr>calls = [], mainStore = (\<lambda>T. Map.empty), lastKey = None, lastVal = None\<rparr>"

definition envNotFound :: env where
  "envNotFound = envOK\<lparr>TxNums_FindBlockNum := (\<lambda>cs n. Inr (False, 0)),
                        agg_MakeSteps := (\<lambda>cs. Inr [(0, 10)])\<rparr>"

text \<open>
  Scratch tables with one record for the domain key \<open>[1]\<close> at transaction number 3, with
  the empty value and with the value \<open>[5]\<close>; and a main store that has \<open>[9]\<close> under the key.
\<close>

definition envEmptyValue :: env where
  "envEmptyValue =
     envOK\<lparr>scratch := (\<lambda>cs. noScratch\<lparr>PlainStateR := [([0, 0, 0, 0, 0, 0, 0, 3, 1], [])]\<rparr>)\<rparr>"

definition envValue :: env where
  "envValue =
     envOK\<lparr>scratch := (\<lambda>cs. noScratch\<lparr>PlainStateR := [([0, 0, 0, 0, 0, 0, 0, 3, 1], [5])]\<rparr>)\<rparr>"

definition reconOld :: recon where
  "reconOld = recon0\<lparr>mainStore := (\<lambda>T. Map.empty)(PlainState := [[1] \<mapsto> [9]])\<rparr>"

text \<open>
  Block 2 of \<open>envGasMismatch\<close>: the state before the final task, and the state in which
  the loop is left after the mismatch.
\<close>

definition execBeforeFinal :: exec where
  "execBeforeFinal =
     execStart\<lparr>calls := calls execStart @
        [BlockWithSenders 2,
         RunTxTask (newTxTask 2 (emptyBlock 2 5) 1 (-1)),
         ApplyState4 (newTxTask 2 (emptyBlock 2 5) 1 (-1)),
         ApplyLogsAndTraces (newTxTask 2 (emptyBlock 2 5) 1 (-1)),
         CommitTxNum (newTxTask 2 (emptyBlock 2 5) 1 (-1))],
       outputTxNum := 2, inputTxNum := 2, stageProgress := 2\<rparr>"

definition execGasBreak :: exec where
  "execGasBreak =
     execBeforeFinal\<lparr>calls := calls execBeforeFinal @
        [RunTxTask (newTxTask 2 (emptyBlock 2 5) 2 0), UnwindTo 1 [1]]\<rparr>"

section \<open>Properties of \<^verbatim>\<open>processResultQueue\<close>\<close>

lemma commitTxNums_append [simp]: "commitTxNums (xs @ ys) = commitTxNums xs @ commitTxNums ys"
  by (simp add: commitTxNums_def)

lemma commitTxNums_Nil [simp]: "commitTxNums [] = []"
  by (simp add: commitTxNums_def)

lemma commitTxNums_Cons [simp]:
  "commitTxNums (c # cs) = (case c of CommitTxNum t \<Rightarrow> [TxNum t] | _ \<Rightarrow> []) @ commitTxNums cs"
  by (simp add: commitTxNums_def)

lemma applyStateTasks_append [simp]:
  "applyStateTasks (xs @ ys) = applyStateTasks xs @ applyStateTasks ys"
  by (simp add: applyStateTasks_def)

lemma applyStateTasks_Nil [simp]: "applyStateTasks [] = []"
  by (simp add: applyStateTasks_def)

lemma applyStateTasks_Cons [simp]:
  "applyStateTasks (c # cs) = (case c of ApplyState4 t \<Rightarrow> [t] | _ \<Rightarrow> []) @ applyStateTasks cs"
  by (simp add: applyStateTasks_def)

lemma contiguousFrom_Nil [simp]: "contiguousFrom n []"
  by (simp add: contiguousFrom_def)

lemma contiguousFrom_Cons: "contiguousFrom n (x # xs) \<longleftrightarrow> x = n \<and> contiguousFrom (n + 1) xs"
proof -
  have "map (\<lambda>k. n + of_nat k) [0..<Suc (length xs)] =
        n # map (\<lambda>k. (n + 1) + of_nat k) [0..<length xs]"
    by (simp add: upt_conv_Cons map_Suc_upt [symmetric] add.assoc add.commute del: upt_Suc)
  then show ?thesis by (auto simp: contiguousFrom_def)
qed

lemma runTxTask_fields [simp]:
  "TxNum (runTxTask E cs t) = TxNum t" "Final (runTxTask E cs t) = Final t"
  "BlockNum (runTxTask E cs t) = BlockNum t" "TxIndex (runTxTask E cs t) = TxIndex t"
  "TaskHeader (runTxTask E cs t) = TaskHeader t"
  by (simp_all add: runTxTask_def split: prod.splits)

lemma applyStep_effect: "stepEffect s t (flowState (applyStep E bp fs s t))"
  unfolding stepEffect_def
  by (auto simp: applyStep_def Let_def record_call_def split: option.splits)

lemma stepEffect_pre:
  "stepEffect s1 t' s' \<Longrightarrow> calls s1 = calls s @ pre \<Longrightarrow> outputTxNum s1 = outputTxNum s \<Longrightarrow>
   commitTxNums pre = [] \<Longrightarrow> applyStateTasks pre = [] \<Longrightarrow> TxNum t' = TxNum t \<Longrightarrow>
   stepEffect s t s'"
  unfolding stepEffect_def
  apply (elim exE conjE)
  subgoal for new
    apply (rule exI [of _ "pre @ new"])
    apply (auto simp: applyStateTasks_def)
    done
  done


lemma loopBody_effect: "stepEffect s t (flowState (loopBody E bp cr fs s t))"
proof (cases "isConflict E s t")
  case False
  then show ?thesis using applyStep_effect [of s t E bp fs] by (simp add: loopBody_def)
next
  case conflict: True
  show ?thesis
  proof (cases "0 < i_conflict s \<and> cr")
    case True
    with conflict show ?thesis
      by (auto simp: loopBody_def Let_def stepEffect_def record_call_def)
  next
    case False
    let ?t = "runTxTask E (calls s) t"
    show ?thesis
    proof (cases "Error ?t")
      case None
      let ?s = "(record_call (RunTxTask t) (s\<lparr>conflicts := conflicts s + 1\<rparr>))
                  \<lparr>i_conflict := i_conflict s + 1\<rparr>"
      have "stepEffect ?s ?t (flowState (applyStep E bp fs ?s ?t))"
        by (rule applyStep_effect)
      then have "stepEffect s t (flowState (applyStep E bp fs ?s ?t))"
        by (rule stepEffect_pre [where pre = "[RunTxTask t]"]) (simp_all add: record_call_def)
      with None False conflict show ?thesis
        by (auto simp: loopBody_def Let_def record_call_def)
    next
      case (Some e)
      with False conflict show ?thesis
        by (auto simp: loopBody_def Let_def stepEffect_def record_call_def)
    qed
  qed
qed

declare resultLoop.simps [simp del]

lemma HasNext_PopNext:
  "HasNext heap n \<Longrightarrow> heap = fst (PopNext heap) # snd (PopNext heap) \<and> TxNum (fst (PopNext heap)) = n"
  by (cases heap) (simp_all add: HasNext_def PopNext_def)

lemma runEffect_refl: "runEffect s s"
  by (simp add: runEffect_def)

lemma runEffect_step:
  assumes "stepEffect s t s1" and "TxNum t = outputTxNum s" and "runEffect s1 s'"
  shows "runEffect s s'"
proof -
  from assms(1) obtain new1 where n1: "calls s1 = calls s @ new1"
    and a1: "\<forall>t'. ApplyState4 t' \<in> set new1 \<longrightarrow> Final t' \<and> TxNum t' = TxNum t"
    and c1: "commitTxNums new1 = [] \<and> outputTxNum s1 = outputTxNum s \<or>
             commitTxNums new1 = [TxNum t] \<and> outputTxNum s1 = outputTxNum s + 1"
    unfolding stepEffect_def by blast
  from assms(3) obtain new2 where n2: "calls s' = calls s1 @ new2"
    and g2: "contiguousFrom (outputTxNum s1) (commitTxNums new2)"
    and o2: "outputTxNum s' = outputTxNum s1 + of_nat (length (commitTxNums new2))"
    and a2: "\<forall>t. ApplyState4 t \<in> set new2 \<longrightarrow>
               Final t \<and> (TxNum t \<in> set (commitTxNums new2) \<or> TxNum t = outputTxNum s')"
    unfolding runEffect_def by blast
  have first: "commitTxNums new2 = [] \<or> hd (commitTxNums new2) = outputTxNum s1"
    using g2 by (cases "commitTxNums new2") (simp_all add: contiguousFrom_Cons)
  from c1 show ?thesis
  proof
    assume c: "commitTxNums new1 = [] \<and> outputTxNum s1 = outputTxNum s"
    have "\<forall>t'. ApplyState4 t' \<in> set new1 \<longrightarrow>
            TxNum t' \<in> set (commitTxNums new2) \<or> TxNum t' = outputTxNum s'"
    proof (intro allI impI)
      fix t' assume "ApplyState4 t' \<in> set new1"
      with a1 assms(2) c have eq: "TxNum t' = outputTxNum s1" by simp
      show "TxNum t' \<in> set (commitTxNums new2) \<or> TxNum t' = outputTxNum s'"
      proof (cases "commitTxNums new2")
        case Nil
        with o2 eq show ?thesis by simp
      next
        case (Cons x xs)
        with first eq show ?thesis by simp
      qed
    qed
    with c n1 n2 g2 o2 a1 a2 show ?thesis
      unfolding runEffect_def by (intro exI [of _ "new1 @ new2"]) auto
  next
    assume c: "commitTxNums new1 = [TxNum t] \<and> outputTxNum s1 = outputTxNum s + 1"
    with n1 n2 g2 o2 a1 a2 assms(2) show ?thesis
      unfolding runEffect_def
      by (intro exI [of _ "new1 @ new2"]) (auto simp: contiguousFrom_Cons add.assoc)
  qed
qed

lemma resultLoop_effect:
  "resultLoop E bp cr fs heap s = (heap', r, err) \<Longrightarrow> runEffect s r"
proof (induction E bp cr fs heap s arbitrary: heap' r err rule: resultLoop.induct)
  case (1 E bp cr fs heap s)
  show ?case
  proof (cases "HasNext heap (outputTxNum s)")
    case False
    with "1.prems" show ?thesis by (simp add: resultLoop.simps runEffect_refl)
  next
    case True
    let ?t = "fst (PopNext heap)"
    have tx: "TxNum ?t = outputTxNum s" using HasNext_PopNext [OF True] by simp
    have eff: "stepEffect s ?t (flowState (loopBody E bp cr fs s ?t))"
      by (rule loopBody_effect)
    show ?thesis
    proof (cases "loopBody E bp cr fs s ?t")
      case (Continue s1)
      with True "1.prems" have "resultLoop E bp cr fs (snd (PopNext heap)) s1 = (heap', r, err)"
        by (simp add: resultLoop.simps)
      then have "runEffect s1 r" using "1.IH" True Continue by blast
      with eff Continue tx show ?thesis by (auto intro: runEffect_step)
    next
      case (Break s1)
      with True "1.prems" have "r = s1" by (simp add: resultLoop.simps)
      with eff Break tx show ?thesis by (auto intro: runEffect_step runEffect_refl)
    next
      case (Return s1 e)
      with True "1.prems" have "r = s1" by (simp add: resultLoop.simps)
      with eff Return tx show ?thesis by (auto intro: runEffect_step runEffect_refl)
    qed
  qed
qed


lemma word_le_succ_less: "(n :: u64) \<le> n + 1 \<Longrightarrow> n < n + 1"
  by (simp add: less_le)

lemma resultLoop_increasing:
  "sorted (map TxNum heap) \<Longrightarrow> resultLoop E bp cr fs heap s = (heap', r, err) \<Longrightarrow>
   \<exists>new. calls r = calls s @ new \<and> sorted_wrt (<) (commitTxNums new) \<and>
     (\<forall>m \<in> set (commitTxNums new). outputTxNum s \<le> m) \<and>
     (commitTxNums new \<noteq> [] \<longrightarrow> HasNext heap (outputTxNum s))"
proof (induction E bp cr fs heap s arbitrary: heap' r err rule: resultLoop.induct)
  case (1 E bp cr fs heap s)
  show ?case
  proof (cases "HasNext heap (outputTxNum s)")
    case False
    with "1.prems" show ?thesis by (simp add: resultLoop.simps)
  next
    case True
    let ?t = "fst (PopNext heap)" and ?q = "snd (PopNext heap)"
    from HasNext_PopNext [OF True]
    have heap: "heap = ?t # ?q" and tx: "TxNum ?t = outputTxNum s" by simp_all
    from "1.prems"(1) heap have sq: "sorted (map TxNum ?q)"
      and le: "\<forall>t' \<in> set ?q. TxNum ?t \<le> TxNum t'"
      by (metis list.simps(9) sorted_simps(2), metis (no_types, lifting) image_eqI list.set_map list.simps(9) sorted_simps(2))
    from loopBody_effect [of s ?t E bp cr fs]
    obtain new1 where n1: "calls (flowState (loopBody E bp cr fs s ?t)) = calls s @ new1"
      and c1: "commitTxNums new1 = [] \<and>
                 outputTxNum (flowState (loopBody E bp cr fs s ?t)) = outputTxNum s \<or>
               commitTxNums new1 = [TxNum ?t] \<and>
                 outputTxNum (flowState (loopBody E bp cr fs s ?t)) = outputTxNum s + 1"
      unfolding stepEffect_def by blast
    have single: "sorted_wrt (<) (commitTxNums new1) \<and>
                  (\<forall>m \<in> set (commitTxNums new1). outputTxNum s \<le> m)"
      using c1 tx by auto
    show ?thesis
    proof (cases "loopBody E bp cr fs s ?t")
      case (Continue s1)
      with True "1.prems" have run: "resultLoop E bp cr fs ?q s1 = (heap', r, err)"
        by (simp add: resultLoop.simps)
      from "1.IH" [OF True Continue sq run]
      obtain new2 where n2: "calls r = calls s1 @ new2"
        and s2: "sorted_wrt (<) (commitTxNums new2)"
        and g2: "\<forall>m \<in> set (commitTxNums new2). outputTxNum s1 \<le> m"
        and h2: "commitTxNums new2 \<noteq> [] \<longrightarrow> HasNext ?q (outputTxNum s1)"
        by blast
      from c1 Continue have
        "commitTxNums new1 = [] \<and> outputTxNum s1 = outputTxNum s \<or>
         commitTxNums new1 = [TxNum ?t] \<and> outputTxNum s1 = outputTxNum s + 1" by simp
      then show ?thesis
      proof
        assume a: "commitTxNums new1 = [] \<and> outputTxNum s1 = outputTxNum s"
        with n1 n2 s2 g2 True Continue show ?thesis
          by (intro exI [of _ "new1 @ new2"]) simp
      next
        assume a: "commitTxNums new1 = [TxNum ?t] \<and> outputTxNum s1 = outputTxNum s + 1"
        have "\<forall>m \<in> set (commitTxNums new2). outputTxNum s < m"
        proof (cases "commitTxNums new2 = []")
          case True
          then show ?thesis by simp
        next
          case False
          with h2 have "HasNext ?q (outputTxNum s + 1)" using a by simp
          then have "?q \<noteq> [] \<and> TxNum (hd ?q) = outputTxNum s + 1"
            by (cases ?q) (simp_all add: HasNext_def)
          with le tx have "outputTxNum s \<le> outputTxNum s + 1"
            by (metis list.set_sel(1))
          then have "outputTxNum s < outputTxNum s + 1" by (rule word_le_succ_less)
          with g2 a show ?thesis by auto
        qed
        with n1 n2 s2 a tx True Continue show ?thesis
          by (intro exI [of _ "new1 @ new2"]) (auto simp: less_imp_le)
      qed
    next
      case (Break s1)
      with True "1.prems" have "r = s1" by (simp add: resultLoop.simps)
      with n1 single Break True show ?thesis by (intro exI [of _ new1]) simp
    next
      case (Return s1 e)
      with True "1.prems" have "r = s1" by (simp add: resultLoop.simps)
      with n1 single Return True show ?thesis by (intro exI [of _ new1]) simp
    qed
  qed
qed

lemma calls_newCalls: "calls s' = calls s @ new \<Longrightarrow> newCalls s s' = new"
  by (simp add: newCalls_def)


lemmas eval_prq = processResultQueue_def resultLoop.simps HasNext_def PopNext_def loopBody_def
  isConflict_def applyStep_def record_call_def runTxTask_def Let_def

lemma run56:
  "processResultQueue envOK [] heap56 5 False True False =
     ([], \<lparr>calls = [CommitTxNum (mkTask 1 5 0 False), ApplyLogsAndTraces (mkTask 1 5 0 False),
                    ApplyState4 (mkTask 1 6 1 True), CommitTxNum (mkTask 1 6 1 True),
                    ApplyLogsAndTraces (mkTask 1 6 1 True)],
          outputTxNum = 7, conflicts = 0, triggers = 0, processedBlockNum = 1,
          stopedAtBlockEnd = True, i_conflict = 0\<rparr>, None)"
  by (simp add: eval_prq envOK_def heap56_def mkTask_def)

text \<open>
  Claim C1 at a concrete input: the heap holds the results of the tasks 5 (not final) and
  6 (final) of block 1, neither with an error, and the expected number is 5. Both tasks
  are popped, in order, both are committed and the function returns \<open>5 + 2\<close>; but
  \<^verbatim>\<open>ApplyState4\<close> is called for task 6 only, since line 1016 calls it under
  \<^verbatim>\<open>if txTask.Final\<close>: the numbers it is called for are not a run without gaps from 5.
  The sequential path of \<^verbatim>\<open>ExecV3\<close> (line 708) calls \<^verbatim>\<open>ApplyState4\<close> for the same task 5.
\<close>

theorem processResultQueue_applies_final_only:
  "\<not> Final (mkTask 1 5 0 False) \<and> Final (mkTask 1 6 1 True) \<and>
   calls (fst (snd (processResultQueue envOK [] heap56 5 False True False))) =
     [CommitTxNum (mkTask 1 5 0 False), ApplyLogsAndTraces (mkTask 1 5 0 False),
      ApplyState4 (mkTask 1 6 1 True), CommitTxNum (mkTask 1 6 1 True),
      ApplyLogsAndTraces (mkTask 1 6 1 True)] \<and>
   applyStateTxNums (calls (fst (snd (processResultQueue envOK [] heap56 5 False True False)))) = [6] \<and>
   \<not> contiguousFrom 5
       (applyStateTxNums (calls (fst (snd (processResultQueue envOK [] heap56 5 False True False))))) \<and>
   commitTxNums (calls (fst (snd (processResultQueue envOK [] heap56 5 False True False)))) = [5, 6] \<and>
   outputTxNum (fst (snd (processResultQueue envOK [] heap56 5 False True False))) = 5 + 2 \<and>
   snd (snd (processResultQueue envOK [] heap56 5 False True False)) = None \<and>
   newCalls execStart (flowState (seqTask envOK cfg0 1 header0 execStart (mkTask 1 5 0 False))) =
     [RunTxTask (mkTask 1 5 0 False), ApplyState4 (mkTask 1 5 0 False),
      ApplyLogsAndTraces (mkTask 1 5 0 False), CommitTxNum (mkTask 1 5 0 False)]"
proof -
  have f: "\<not> Final (mkTask 1 5 0 False)" "Final (mkTask 1 6 1 True)" by (simp_all add: mkTask_def)
  have r: "calls (fst (snd (processResultQueue envOK [] heap56 5 False True False))) =
     [CommitTxNum (mkTask 1 5 0 False), ApplyLogsAndTraces (mkTask 1 5 0 False),
      ApplyState4 (mkTask 1 6 1 True), CommitTxNum (mkTask 1 6 1 True),
      ApplyLogsAndTraces (mkTask 1 6 1 True)]"
    "outputTxNum (fst (snd (processResultQueue envOK [] heap56 5 False True False))) = 5 + 2"
    "snd (snd (processResultQueue envOK [] heap56 5 False True False)) = None"
    by (simp_all add: run56)
  have a: "applyStateTxNums (calls (fst (snd (processResultQueue envOK [] heap56 5 False True False)))) = [6]"
    "commitTxNums (calls (fst (snd (processResultQueue envOK [] heap56 5 False True False)))) = [5, 6]"
    by (simp_all add: run56 applyStateTxNums_def mkTask_def)
  have c: "\<not> contiguousFrom 5
       (applyStateTxNums (calls (fst (snd (processResultQueue envOK [] heap56 5 False True False)))))"
    unfolding a by (simp add: contiguousFrom_def)
  have s: "newCalls execStart (flowState (seqTask envOK cfg0 1 header0 execStart (mkTask 1 5 0 False))) =
     [RunTxTask (mkTask 1 5 0 False), ApplyState4 (mkTask 1 5 0 False),
      ApplyLogsAndTraces (mkTask 1 5 0 False), CommitTxNum (mkTask 1 5 0 False)]"
    by (simp add: seqTask_def runTxTask_def envOK_def gasCheck_def record_call_def Let_def
          newCalls_def mkTask_def)
  from f r a c s show ?thesis by (simp only: simp_thms)
qed


text \<open>
  What every run of \<^verbatim>\<open>processResultQueue\<close> keeps of the order: the numbers of the tasks
  committed (\<^verbatim>\<open>CommitTxNum\<close>, the step that advances \<^verbatim>\<open>outputTxNum\<close>) are a run without
  gaps from \<^verbatim>\<open>outputTxNumIn\<close>, strictly increasing when the heap is ordered, and the
  function returns \<^verbatim>\<open>outputTxNumIn\<close> plus their count. \<^verbatim>\<open>ApplyState4\<close> is called for
  final tasks only, each one a committed task or the one whose apply failed. Nothing is
  popped when the smallest task of the heap is not the expected one.
\<close>

theorem processResultQueue_commit_order:
  assumes "processResultQueue E cs heap outputTxNumIn bp cr fs = (heap', r, err)"
  shows "take (length cs) (calls r) = cs \<and>
         contiguousFrom outputTxNumIn (commitTxNums (drop (length cs) (calls r))) \<and>
         outputTxNum r =
           outputTxNumIn + of_nat (length (commitTxNums (drop (length cs) (calls r)))) \<and>
         (sorted (map TxNum heap) \<longrightarrow>
            sorted_wrt (<) (commitTxNums (drop (length cs) (calls r)))) \<and>
         (\<forall>t. ApplyState4 t \<in> set (drop (length cs) (calls r)) \<longrightarrow>
            Final t \<and> (TxNum t \<in> set (commitTxNums (drop (length cs) (calls r))) \<or>
                       TxNum t = outputTxNum r)) \<and>
         (\<not> HasNext heap outputTxNumIn \<longrightarrow> calls r = cs \<and> heap' = heap)"
proof -
  let ?s = "\<lparr>calls = cs, outputTxNum = outputTxNumIn, conflicts = 0, triggers = 0,
             processedBlockNum = 0, stopedAtBlockEnd = False, i_conflict = 0\<rparr>"
  from assms have run: "resultLoop E bp cr fs heap ?s = (heap', r, err)"
    by (simp add: processResultQueue_def)
  from resultLoop_effect [OF run] obtain new where
    new: "calls r = cs @ new" and
    rest: "contiguousFrom outputTxNumIn (commitTxNums new)"
      "outputTxNum r = outputTxNumIn + of_nat (length (commitTxNums new))"
      "\<forall>t. ApplyState4 t \<in> set new \<longrightarrow>
         Final t \<and> (TxNum t \<in> set (commitTxNums new) \<or> TxNum t = outputTxNum r)"
    unfolding runEffect_def by auto
  have drop: "drop (length cs) (calls r) = new" and take: "take (length cs) (calls r) = cs"
    using new by simp_all
  have incr: "sorted_wrt (<) (commitTxNums new)" if "sorted (map TxNum heap)"
    using resultLoop_increasing [OF that run] new by auto
  have stop: "calls r = cs \<and> heap' = heap" if "\<not> HasNext heap outputTxNumIn"
    using that run by (auto simp: resultLoop.simps)
  from take rest incr stop show ?thesis unfolding drop by blast
qed

text \<open>The order of the commits at the heap of tasks 5 and 6.\<close>

theorem processResultQueue_commit_order_witness:
  "sorted (map TxNum heap56) \<and>
   contiguousFrom 5
     (commitTxNums (calls (fst (snd (processResultQueue envOK [] heap56 5 False True False))))) \<and>
   outputTxNum (fst (snd (processResultQueue envOK [] heap56 5 False True False))) = 7 \<and>
   sorted_wrt (<)
     (commitTxNums (calls (fst (snd (processResultQueue envOK [] heap56 5 False True False))))) \<and>
   Final (mkTask 1 6 1 True) \<and>
   ApplyState4 (mkTask 1 6 1 True)
     \<in> set (calls (fst (snd (processResultQueue envOK [] heap56 5 False True False))))"
proof -
  have srt: "sorted (map TxNum heap56)"
    by (simp add: heap56_def mkTask_def)
  have len: "length (commitTxNums (calls (fst (snd (processResultQueue envOK [] heap56 5 False True False))))) = 2"
    by (simp add: run56)
  have mem: "ApplyState4 (mkTask 1 6 1 True)
     \<in> set (calls (fst (snd (processResultQueue envOK [] heap56 5 False True False))))"
    by (simp add: run56)
  from processResultQueue_commit_order
         [of envOK "[]" heap56 5 False True False
             "fst (processResultQueue envOK [] heap56 5 False True False)"
             "fst (snd (processResultQueue envOK [] heap56 5 False True False))"
             "snd (snd (processResultQueue envOK [] heap56 5 False True False))"]
  show ?thesis using srt len mem by simp
qed

lemma conflictCalls_append [simp]:
  "conflictCalls (xs @ ys) = conflictCalls xs @ conflictCalls ys"
  by (simp add: conflictCalls_def)

lemma conflictCalls_simps [simp]:
  "conflictCalls [] = []"
  "conflictCalls (RunTxTask t # cs) = RunTxTask t # conflictCalls cs"
  "conflictCalls (ReTry t # cs) = ReTry t # conflictCalls cs"
  "conflictCalls (ApplyState4 t # cs) = conflictCalls cs"
  "conflictCalls (CommitTxNum t # cs) = conflictCalls cs"
  "conflictCalls (ApplyLogsAndTraces t # cs) = conflictCalls cs"
  "conflictCalls (BackPressure # cs) = conflictCalls cs"
  by (simp_all add: conflictCalls_def isRun_def isReTry_def)

lemma applyStep_conflictCalls:
  "\<exists>new. calls (flowState (applyStep E bp fs s t)) = calls s @ new \<and> conflictCalls new = [] \<and>
     conflicts (flowState (applyStep E bp fs s t)) = conflicts s \<and>
     i_conflict (flowState (applyStep E bp fs s t)) = i_conflict s"
  by (auto simp: applyStep_def Let_def record_call_def split: option.splits)

text \<open>The conflict handling of one pass of the loop body.\<close>

lemma loopBody_conflictCalls:
  "\<exists>new. calls (flowState (loopBody E bp cr fs s t)) = calls s @ new \<and>
     conflictCalls new =
       (if isConflict E s t then [if 0 < i_conflict s \<and> cr then ReTry t else RunTxTask t] else []) \<and>
     conflicts (flowState (loopBody E bp cr fs s t)) =
       conflicts s + (if isConflict E s t then 1 else 0) \<and>
     i_conflict s \<le> i_conflict (flowState (loopBody E bp cr fs s t)) \<and>
     (isConflict E s t \<and> \<not> (0 < i_conflict s \<and> cr) \<and>
      Error (runTxTask E (calls s) t) = None \<longrightarrow>
        i_conflict (flowState (loopBody E bp cr fs s t)) = i_conflict s + 1)"
proof (cases "isConflict E s t")
  case False
  with applyStep_conflictCalls [of E bp fs s t] show ?thesis
    by (auto simp: loopBody_def)
next
  case conflict: True
  show ?thesis
  proof (cases "0 < i_conflict s \<and> cr")
    case True
    with conflict show ?thesis
      by (auto simp: loopBody_def Let_def record_call_def)
  next
    case False
    let ?t = "runTxTask E (calls s) t"
    show ?thesis
    proof (cases "Error ?t")
      case None
      let ?s = "(record_call (RunTxTask t) (s\<lparr>conflicts := conflicts s + 1\<rparr>))
                  \<lparr>i_conflict := i_conflict s + 1\<rparr>"
      from applyStep_conflictCalls [of E bp fs ?s ?t]
      obtain new where "calls (flowState (applyStep E bp fs ?s ?t)) = calls ?s @ new"
        "conflictCalls new = []"
        "conflicts (flowState (applyStep E bp fs ?s ?t)) = conflicts ?s"
        "i_conflict (flowState (applyStep E bp fs ?s ?t)) = i_conflict ?s" by blast
      with None False conflict show ?thesis
        by (intro exI [of _ "RunTxTask t # new"])
           (auto simp: loopBody_def Let_def record_call_def)
    next
      case (Some e)
      with False conflict show ?thesis
        by (auto simp: loopBody_def Let_def record_call_def)
    qed
  qed
qed


lemma firstInPlace_Cons: "firstInPlace (c # cs) = (isRun c \<and> list_all isReTry cs)"
  by (simp add: firstInPlace_def)

lemma isRun_simps [simp]: "isRun (RunTxTask t)" "\<not> isRun (ReTry t)"
  "isReTry (ReTry t)" "\<not> isReTry (RunTxTask t)"
  by (simp_all add: isRun_def isReTry_def)

lemma resultLoop_conflicts:
  "resultLoop E bp cr fs heap s = (heap', r, err) \<Longrightarrow> 0 \<le> i_conflict s \<Longrightarrow>
   \<exists>new. calls r = calls s @ new \<and>
     conflictsHandled cr (i_conflict s) (conflictCalls new) \<and>
     conflicts r = conflicts s + int (length (conflictCalls new))"
proof (induction E bp cr fs heap s arbitrary: heap' r err rule: resultLoop.induct)
  case (1 E bp cr fs heap s)
  show ?case
  proof (cases "HasNext heap (outputTxNum s)")
    case False
    with "1.prems" show ?thesis
      by (auto simp: resultLoop.simps conflictsHandled_def firstInPlace_def)
  next
    case True
    let ?t = "fst (PopNext heap)" and ?q = "snd (PopNext heap)"
    let ?s1 = "flowState (loopBody E bp cr fs s ?t)"
    from loopBody_conflictCalls [of E bp cr fs s ?t]
    obtain new1 where n1: "calls ?s1 = calls s @ new1"
      and c1: "conflictCalls new1 =
         (if isConflict E s ?t then [if 0 < i_conflict s \<and> cr then ReTry ?t else RunTxTask ?t] else [])"
      and k1: "conflicts ?s1 = conflicts s + (if isConflict E s ?t then 1 else 0)"
      and i1: "i_conflict s \<le> i_conflict ?s1"
      and j1: "isConflict E s ?t \<and> \<not> (0 < i_conflict s \<and> cr) \<and>
                 Error (runTxTask E (calls s) ?t) = None \<longrightarrow> i_conflict ?s1 = i_conflict s + 1"
      by blast
    have h1: "conflictsHandled cr (i_conflict s) (conflictCalls new1)"
      using c1 by (auto simp: conflictsHandled_def firstInPlace_def)
    have stop: ?thesis if "r = ?s1"
      using that n1 h1 k1 c1 by (intro exI [of _ new1]) auto
    show ?thesis
    proof (cases "loopBody E bp cr fs s ?t")
      case (Continue s1)
      with True "1.prems" have run: "resultLoop E bp cr fs ?q s1 = (heap', r, err)"
        by (simp add: resultLoop.simps)
      from Continue have s1: "?s1 = s1" by simp
      from i1 "1.prems"(2) s1 have pos: "0 \<le> i_conflict s1" by simp
      from "1.IH" [OF True Continue run pos]
      obtain new2 where n2: "calls r = calls s1 @ new2"
        and h2: "conflictsHandled cr (i_conflict s1) (conflictCalls new2)"
        and k2: "conflicts r = conflicts s1 + int (length (conflictCalls new2))"
        by blast
      have inplace: "i_conflict s1 = i_conflict s + 1"
        if "isConflict E s ?t" "\<not> (0 < i_conflict s \<and> cr)"
      proof -
        have "Error (runTxTask E (calls s) ?t) = None"
          using that Continue by (auto simp: loopBody_def Let_def split: option.splits)
        with that j1 s1 show ?thesis by simp
      qed
      have "conflictsHandled cr (i_conflict s) (conflictCalls new1 @ conflictCalls new2)"
      proof (cases "isConflict E s ?t")
        case False
        then have "i_conflict s1 = i_conflict s"
          using Continue applyStep_conflictCalls [of E bp fs s ?t] by (auto simp: loopBody_def)
        with False c1 h2 show ?thesis by simp
      next
        case conflict: True
        show ?thesis
        proof (cases "0 < i_conflict s \<and> cr")
          case True
          with i1 s1 have "0 < i_conflict s1" by simp
          with True conflict c1 h2 show ?thesis
            by (simp add: conflictsHandled_def)
        next
          case False
          with inplace conflict have "i_conflict s1 = i_conflict s + 1" by simp
          with "1.prems"(2) have "0 < i_conflict s1" by simp
          with False conflict c1 h2 show ?thesis
            by (auto simp: conflictsHandled_def firstInPlace_Cons)
        qed
      qed
      with n1 n2 k1 k2 s1 c1 show ?thesis
        by (intro exI [of _ "new1 @ new2"]) auto
    next
      case (Break s1)
      with True "1.prems" have "r = ?s1" by (simp add: resultLoop.simps)
      then show ?thesis by (rule stop)
    next
      case (Return s1 e)
      with True "1.prems" have "r = ?s1" by (simp add: resultLoop.simps)
      then show ?thesis by (rule stop)
    qed
  qed
qed

lemma runConflict:
  "processResultQueue envConflict [] heap56 5 False True False =
     ([], \<lparr>calls = [RunTxTask (mkTask 1 5 0 False), CommitTxNum (mkTask 1 5 0 False),
                    ApplyLogsAndTraces (mkTask 1 5 0 False), ReTry (mkTask 1 6 1 True)],
          outputTxNum = 6, conflicts = 2, triggers = 0, processedBlockNum = 1,
          stopedAtBlockEnd = False, i_conflict = 1\<rparr>, None)"
  by (simp add: eval_prq envConflict_def envOK_def heap56_def mkTask_def)

lemma runRevert:
  "processResultQueue envRevert [] heap56 5 False True False =
     ([mkTask 1 6 1 True],
      \<lparr>calls = [RunTxTask (mkTask 1 5 0 False)],
          outputTxNum = 5, conflicts = 1, triggers = 0, processedBlockNum = 0,
          stopedAtBlockEnd = False, i_conflict = 0\<rparr>, Some (Errorf ''reverted''))"
  by (simp add: eval_prq envRevert_def envOK_def heap56_def mkTask_def)

text \<open>
  Claim C2, as stated, at a concrete input: task 5 is the first conflict of the batch and
  the apply worker re-executes it in place, but the re-execution reports an error; the
  task is not applied, \<^verbatim>\<open>outputTxNum\<close> stays at 5 and the function returns the error.
\<close>

theorem C2_counterexample:
  "isConflict envRevert
     \<lparr>calls = [], outputTxNum = 5, conflicts = 0, triggers = 0, processedBlockNum = 0,
      stopedAtBlockEnd = False, i_conflict = 0\<rparr> (mkTask 1 5 0 False) \<and>
   calls (fst (snd (processResultQueue envRevert [] heap56 5 False True False)))
     = [RunTxTask (mkTask 1 5 0 False)] \<and>
   commitTxNums (calls (fst (snd (processResultQueue envRevert [] heap56 5 False True False)))) = [] \<and>
   outputTxNum (fst (snd (processResultQueue envRevert [] heap56 5 False True False))) = 5 \<and>
   snd (snd (processResultQueue envRevert [] heap56 5 False True False)) = Some (Errorf ''reverted'')"
proof -
  have "isConflict envRevert
     \<lparr>calls = [], outputTxNum = 5, conflicts = 0, triggers = 0, processedBlockNum = 0,
      stopedAtBlockEnd = False, i_conflict = 0\<rparr> (mkTask 1 5 0 False)"
    by (simp add: isConflict_def envRevert_def envOK_def)
  then show ?thesis by (simp add: runRevert)
qed


text \<open>
  Claim C2, amended: a popped task is a conflict exactly when its error is set or
  \<^verbatim>\<open>ReadsValid\<close> fails. In a run that may retry, the first conflict is re-executed in
  place and every later one is handed back by \<^verbatim>\<open>ReTry\<close> and skipped; in a run that may
  not retry, every conflict is re-executed in place. A task re-executed in place is then
  applied if the re-execution reports no error; otherwise the function returns that error.
  \<^verbatim>\<open>conflicts\<close> counts the two kinds of handling together.
\<close>

theorem processResultQueue_conflict_policy:
  assumes "processResultQueue E cs heap outputTxNumIn bp cr fs = (heap', r, err)"
  shows "conflicts r = int (length (conflictCalls (drop (length cs) (calls r)))) \<and>
         (cr \<longrightarrow> firstInPlace (conflictCalls (drop (length cs) (calls r)))) \<and>
         (\<not> cr \<longrightarrow> list_all isRun (conflictCalls (drop (length cs) (calls r)))) \<and>
         (\<forall>s t. conflictCalls (drop (length (calls s)) (calls (flowState (loopBody E bp cr fs s t)))) =
            (if Error t \<noteq> None \<or> \<not> rs_ReadsValid E (calls s) t
             then [if 0 < i_conflict s \<and> cr then ReTry t else RunTxTask t] else [])) \<and>
         (\<forall>s t. isConflict E s t \<and> 0 < i_conflict s \<and> cr \<longrightarrow>
            loopBody E bp cr fs s t =
              Continue (record_call (ReTry t) (s\<lparr>conflicts := conflicts s + 1\<rparr>))) \<and>
         (\<forall>s t. isConflict E s t \<and> \<not> (0 < i_conflict s \<and> cr) \<longrightarrow>
            loopBody E bp cr fs s t =
              (case Error (runTxTask E (calls s) t) of
                 Some e \<Rightarrow>
                   Return ((record_call (RunTxTask t) (s\<lparr>conflicts := conflicts s + 1\<rparr>))
                             \<lparr>stopedAtBlockEnd := False\<rparr>) e
               | None \<Rightarrow>
                   applyStep E bp fs
                     ((record_call (RunTxTask t) (s\<lparr>conflicts := conflicts s + 1\<rparr>))
                        \<lparr>i_conflict := i_conflict s + 1\<rparr>)
                     (runTxTask E (calls s) t))) \<and>
         (\<forall>s t. \<not> isConflict E s t \<longrightarrow> loopBody E bp cr fs s t = applyStep E bp fs s t)"
proof -
  let ?s = "\<lparr>calls = cs, outputTxNum = outputTxNumIn, conflicts = 0, triggers = 0,
             processedBlockNum = 0, stopedAtBlockEnd = False, i_conflict = 0\<rparr>"
  from assms have run: "resultLoop E bp cr fs heap ?s = (heap', r, err)"
    by (simp add: processResultQueue_def)
  from resultLoop_conflicts [OF run] obtain new where
    new: "calls r = cs @ new" and
    h: "conflictsHandled cr 0 (conflictCalls new)" and
    k: "conflicts r = int (length (conflictCalls new))"
    by auto
  have drop: "drop (length cs) (calls r) = new" using new by simp
  have step: "conflictCalls (drop (length (calls s)) (calls (flowState (loopBody E bp cr fs s t)))) =
            (if Error t \<noteq> None \<or> \<not> rs_ReadsValid E (calls s) t
             then [if 0 < i_conflict s \<and> cr then ReTry t else RunTxTask t] else [])" for s t
    using loopBody_conflictCalls [of E bp cr fs s t] by (auto simp: isConflict_def)
  have retry: "loopBody E bp cr fs s t =
      Continue (record_call (ReTry t) (s\<lparr>conflicts := conflicts s + 1\<rparr>))"
    if "isConflict E s t \<and> 0 < i_conflict s \<and> cr" for s t
    using that by (simp add: loopBody_def Let_def)
  have inplace: "loopBody E bp cr fs s t =
      (case Error (runTxTask E (calls s) t) of
         Some e \<Rightarrow>
           Return ((record_call (RunTxTask t) (s\<lparr>conflicts := conflicts s + 1\<rparr>))
                     \<lparr>stopedAtBlockEnd := False\<rparr>) e
       | None \<Rightarrow>
           applyStep E bp fs
             ((record_call (RunTxTask t) (s\<lparr>conflicts := conflicts s + 1\<rparr>))
                \<lparr>i_conflict := i_conflict s + 1\<rparr>)
             (runTxTask E (calls s) t))"
    if "isConflict E s t \<and> \<not> (0 < i_conflict s \<and> cr)" for s t
    using that by (auto simp: loopBody_def Let_def record_call_def split: option.splits)
  have plain: "loopBody E bp cr fs s t = applyStep E bp fs s t" if "\<not> isConflict E s t" for s t
    using that by (simp add: loopBody_def)
  from h k step retry inplace plain show ?thesis
    unfolding drop by (simp add: conflictsHandled_def split: if_splits)
qed

text \<open>
  The amended claim C2 where no read set is valid: task 5 is re-executed and committed,
  task 6 is retried.
\<close>

theorem processResultQueue_conflict_policy_witness:
  "conflicts (fst (snd (processResultQueue envConflict [] heap56 5 False True False))) = 2 \<and>
   firstInPlace
     (conflictCalls (calls (fst (snd (processResultQueue envConflict [] heap56 5 False True False))))) \<and>
   conflictCalls (calls (fst (snd (processResultQueue envConflict [] heap56 5 False True False))))
     = [RunTxTask (mkTask 1 5 0 False), ReTry (mkTask 1 6 1 True)] \<and>
   commitTxNums (calls (fst (snd (processResultQueue envConflict [] heap56 5 False True False))))
     = [5]"
proof -
  have cc: "conflictCalls (calls (fst (snd (processResultQueue envConflict [] heap56 5 False True False))))
     = [RunTxTask (mkTask 1 5 0 False), ReTry (mkTask 1 6 1 True)]"
    by (simp add: runConflict)
  have cm: "commitTxNums (calls (fst (snd (processResultQueue envConflict [] heap56 5 False True False))))
     = [5]"
    by (simp add: runConflict mkTask_def)
  from processResultQueue_conflict_policy
         [of envConflict "[]" heap56 5 False True False
             "fst (processResultQueue envConflict [] heap56 5 False True False)"
             "fst (snd (processResultQueue envConflict [] heap56 5 False True False))"
             "snd (snd (processResultQueue envConflict [] heap56 5 False True False))"]
  have "conflicts (fst (snd (processResultQueue envConflict [] heap56 5 False True False)))
          = int (length (conflictCalls (calls (fst (snd (processResultQueue envConflict [] heap56 5 False True False))))))
        \<and> firstInPlace (conflictCalls (calls (fst (snd (processResultQueue envConflict [] heap56 5 False True False)))))"
    by simp
  with cc cm show ?thesis by simp
qed

section \<open>Properties of \<^verbatim>\<open>ExecV3\<close>\<close>

lemmas eval_exec = ExecV3_def execBody_def startExec_def firstBlock_def blockRound_def
  beforeTasks_def stateStreamOn_def seqTask_def parTask_def gasCheck_def newTxTask_def attachTx_def
  rootCheck_def seqCommit_def afterLoop_def finish_def andThen_def fallible_def record_call_def
  runTxTask_def outcome_def Let_def upto_rec1

lemma runWrongRoot:
  "outcome (ExecV3 (Suc 0) envWrongRoot cfg0 argsGenesis True) =
     Some ([BeginRw, TxNumsMax 0, BlockWithSenders 0,
            RunTxTask (newTxTask 0 (emptyBlock 0 0) 0 (-1)),
            ApplyState4 (newTxTask 0 (emptyBlock 0 0) 0 (-1)),
            ApplyLogsAndTraces (newTxTask 0 (emptyBlock 0 0) 0 (-1)),
            CommitTxNum (newTxTask 0 (emptyBlock 0 0) 0 (-1)),
            RunTxTask (newTxTask 0 (emptyBlock 0 0) 1 0),
            ApplyState4 (newTxTask 0 (emptyBlock 0 0) 1 0),
            ApplyLogsAndTraces (newTxTask 0 (emptyBlock 0 0) 1 0),
            CommitTxNum (newTxTask 0 (emptyBlock 0 0) 1 0),
            ComputeCommitment, AggFlush, AggFlush, StageUpdate 0, TxCommit], None)"
  by (simp add: eval_exec envWrongRoot_def envOK_def cfg0_def argsGenesis_def emptyBlock_def headerOf_def)

lemma runTxFails:
  "outcome (ExecV3 (Suc 0) envTxFails cfg0 argsBlock2 True) =
     Some ([BeginRw, TxNumsMax 2, TxNumsMax 1, BlockWithSenders 2,
            RunTxTask (newTxTask 2 (oneTxBlock 2) 1 (-1)),
            ApplyState4 (newTxTask 2 (oneTxBlock 2) 1 (-1)),
            ApplyLogsAndTraces (newTxTask 2 (oneTxBlock 2) 1 (-1)),
            CommitTxNum (newTxTask 2 (oneTxBlock 2) 1 (-1)),
            RunTxTask ((newTxTask 2 (oneTxBlock 2) 2 0)\<lparr>Tx := Some tx0, Sender := Some [5]\<rparr>),
            UnwindTo 1 [1], AggFlush, StageUpdate 2, TxCommit], None)"
  by (simp add: eval_exec envTxFails_def envOK_def cfg0_def argsBlock2_def oneTxBlock_def headerOf_def tx0_def)

lemma runGasMismatch:
  "outcome (ExecV3 (Suc 0) envGasMismatch cfg0 argsBlock2 True) =
     Some ([BeginRw, TxNumsMax 2, TxNumsMax 1, BlockWithSenders 2,
            RunTxTask (newTxTask 2 (emptyBlock 2 5) 1 (-1)),
            ApplyState4 (newTxTask 2 (emptyBlock 2 5) 1 (-1)),
            ApplyLogsAndTraces (newTxTask 2 (emptyBlock 2 5) 1 (-1)),
            CommitTxNum (newTxTask 2 (emptyBlock 2 5) 1 (-1)),
            RunTxTask (newTxTask 2 (emptyBlock 2 5) 2 0),
            UnwindTo 1 [1], AggFlush, StageUpdate 2, TxCommit], None)"
  by (simp add: eval_exec envGasMismatch_def envOK_def cfg0_def argsBlock2_def emptyBlock_def headerOf_def)


lemma outcome_Some: "outcome r = Some (cs, e) \<Longrightarrow> \<exists>s. r = Some (s, e) \<and> calls s = cs"
  by (auto simp: outcome_def)

lemma outcome_calls: "r = Some (s, e) \<Longrightarrow> fst (the (outcome r)) = calls s"
  by (simp add: outcome_def)

lemma ranTasks_append [simp]: "ranTasks (xs @ ys) = ranTasks xs @ ranTasks ys"
  by (simp add: ranTasks_def)

lemma ranTasks_Nil [simp]: "ranTasks [] = []"
  by (simp add: ranTasks_def)

lemma ranTasks_Cons [simp]:
  "ranTasks (c # cs) = (case c of RunTxTask t \<Rightarrow> [t] | _ \<Rightarrow> []) @ ranTasks cs"
  by (simp add: ranTasks_def)

lemma commitsAtBlockEnd_append:
  "commitsAtBlockEnd b (xs @ ys) \<longleftrightarrow>
     commitsAtBlockEnd b xs \<and> commitsAtBlockEnd (atBlockEnd b xs) ys"
  by (induction b xs rule: commitsAtBlockEnd.induct) auto

lemma atBlockEnd_append: "atBlockEnd b (xs @ ys) = atBlockEnd (atBlockEnd b xs) ys"
  by (induction b xs rule: atBlockEnd.induct) auto

lemma commitsAtBlockEnd_noCommit: "TxCommit \<notin> set cs \<Longrightarrow> commitsAtBlockEnd b cs"
  by (induction b cs rule: commitsAtBlockEnd.induct) auto

lemma atBlockEnd_noApply: "list_all (\<lambda>c. \<not> isApplyCall c) cs \<Longrightarrow> atBlockEnd b cs = b"
  by (induction b cs rule: atBlockEnd.induct) (auto simp: isApplyCall_def)

lemma commitsAtBlockEnd_mono: "commitsAtBlockEnd False cs \<Longrightarrow> commitsAtBlockEnd b cs"
  by (induction b cs rule: commitsAtBlockEnd.induct) auto

text \<open>The sequential branch for one task: when it goes on, and when it stops.\<close>

lemma seqTask_Continue:
  assumes "seqTask E C blockNum header s t = Continue s'"
  shows "Error t = None \<and>
         gasCheck (gasUsed s) (runTxTask E (calls s) t) = Inr (gasUsed s') \<and>
         calls s' = calls s @ [RunTxTask t, ApplyState4 (runTxTask E (calls s) t),
                               ApplyLogsAndTraces (runTxTask E (calls s) t),
                               CommitTxNum (runTxTask E (calls s) t)] \<and>
         outputTxNum s' = outputTxNum s + 1 \<and> inputTxNum s' = inputTxNum s"
  using assms
  by (auto simp: seqTask_def Let_def record_call_def split: if_splits sum.splits option.splits)

lemma seqTask_stop:
  assumes "seqTask E C blockNum header s t = Break s' \<or> seqTask E C blockNum header s t = Return s' e"
  shows "\<exists>new. calls s' = calls s @ new \<and> TxCommit \<notin> set new \<and>
           ranTasks new = (if Error t = None then [t] else []) \<and>
           outputTxNum s' = outputTxNum s"
  using assms
  by (auto simp: seqTask_def Let_def record_call_def split: if_splits sum.splits option.splits)

lemma seqTask_failed:
  assumes "Error t = None" and "gasCheck (gasUsed s) (runTxTask E (calls s) t) = Inl err"
  shows "seqTask E C blockNum header s t =
           (let reported = (\<not> errorsIs err Canceled \<and> \<not> errorsIs err ErrStopped);
                s1 = record_call (RunTxTask t) s;
                s2 = (if reported \<and> cfg_hd C
                      then record_call (ReportBadHeaderPoS (Hash header) (ParentHash header)) s1
                      else s1)
            in if reported \<and> badBlockHalt C then Return s2 err
               else Break (record_call (UnwindTo (blockNum - 1) (Hash header)) s2))"
  using assms by (simp add: seqTask_def Let_def record_call_def)

lemma attachTx_Inr:
  "attachTx txs t = Inr t' \<Longrightarrow>
   TxIndex t' = TxIndex t \<and> TxNum t' = TxNum t \<and> Final t' = Final t \<and> BlockNum t' = BlockNum t \<and>
   Error t' = Error t \<and> TaskHeader t' = TaskHeader t"
  by (auto simp: attachTx_def Let_def split: if_splits option.splits sum.splits)

lemma newTxTask_fields [simp]:
  "TxIndex (newTxTask bn b n i) = i" "TxNum (newTxTask bn b n i) = n"
  "BlockNum (newTxTask bn b n i) = bn"
  "Final (newTxTask bn b n i) = (i = int (length (Transactions b)))"
  "Error (newTxTask bn b n i) = None" "TaskHeader (newTxTask bn b n i) = HeaderNoCopy b"
  by (simp_all add: newTxTask_def)

lemma andThen_simps [simp]:
  "andThen (Continue s) f = f s" "andThen (Break s) f = Break s"
  "andThen (Return s e) f = Return s e"
  by (simp_all add: andThen_def)

lemma andThen_Continue:
  "andThen r f = Continue s' \<longleftrightarrow> (\<exists>s1. r = Continue s1 \<and> f s1 = Continue s')"
  by (cases r) simp_all

lemma taskLoop_append:
  "taskLoop E C par bn b (xs @ ys) s = andThen (taskLoop E C par bn b xs s) (taskLoop E C par bn b ys)"
  by (induction xs arbitrary: s) (auto split: sum.splits flow.splits)

lemma emittedFrom_Nil [simp]: "emittedFrom bn b n idxs []"
  by (simp add: emittedFrom_def)

lemma emittedFrom_Cons:
  "emittedFrom bn b n (i # idxs) (t # ts) \<longleftrightarrow>
     TxIndex t = i \<and> TxNum t = n \<and> BlockNum t = bn \<and>
     Final t = (i = int (length (Transactions b))) \<and> emittedFrom bn b (n + 1) idxs ts"
  unfolding emittedFrom_def
  by (auto simp: nth_Cons less_Suc_eq_0_disj add.assoc add.commute split: nat.splits)

lemma taskLoop_emitted:
  "\<exists>new. calls (flowState (taskLoop E C False bn b idxs s)) = calls s @ new \<and>
     TxCommit \<notin> set new \<and>
     emittedFrom bn b (inputTxNum s) idxs (ranTasks new) \<and>
     (\<forall>s'. taskLoop E C False bn b idxs s = Continue s' \<longrightarrow>
        length (ranTasks new) = length idxs \<and>
        inputTxNum s' = inputTxNum s + of_nat (length idxs))"
proof (induction idxs arbitrary: s)
  case Nil
  show ?case by simp
next
  case (Cons i idxs)
  let ?t0 = "newTxTask bn b (inputTxNum s) i"
  show ?case
  proof (cases "attachTx (Transactions b) ?t0")
    case (Inl e)
    then show ?thesis by simp
  next
    case (Inr t)
    from attachTx_Inr [OF Inr] have t: "TxIndex t = i" "TxNum t = inputTxNum s" "BlockNum t = bn"
      "Final t = (i = int (length (Transactions b)))" "Error t = None" by simp_all
    show ?thesis
    proof (cases "seqTask E C bn (HeaderNoCopy b) s t")
      case (Continue s1)
      from seqTask_Continue [OF Continue]
      have c1: "calls s1 = calls s @ [RunTxTask t, ApplyState4 (runTxTask E (calls s) t),
                               ApplyLogsAndTraces (runTxTask E (calls s) t),
                               CommitTxNum (runTxTask E (calls s) t)]"
        and i1: "inputTxNum s1 = inputTxNum s" by simp_all
      let ?s1 = "s1\<lparr>stageProgress := bn, inputTxNum := inputTxNum s1 + 1\<rparr>"
      from Cons.IH [of ?s1] obtain new2 where
        n2: "calls (flowState (taskLoop E C False bn b idxs ?s1)) = calls ?s1 @ new2"
        and m2: "TxCommit \<notin> set new2"
        and e2: "emittedFrom bn b (inputTxNum ?s1) idxs (ranTasks new2)"
        and k2: "\<forall>s'. taskLoop E C False bn b idxs ?s1 = Continue s' \<longrightarrow>
                   length (ranTasks new2) = length idxs \<and>
                   inputTxNum s' = inputTxNum ?s1 + of_nat (length idxs)"
        by blast
      show ?thesis
        using Inr Continue c1 i1 n2 m2 e2 k2 t
        by (intro exI [of _ "[RunTxTask t, ApplyState4 (runTxTask E (calls s) t),
                               ApplyLogsAndTraces (runTxTask E (calls s) t),
                               CommitTxNum (runTxTask E (calls s) t)] @ new2"])
           (auto simp: emittedFrom_Cons add.assoc)
    next
      case (Break s1)
      from seqTask_stop [of E C bn "HeaderNoCopy b" s t s1] Break t(5)
      obtain new where "calls s1 = calls s @ new" "TxCommit \<notin> set new" "ranTasks new = [t]"
        by auto
      with Inr Break t show ?thesis
        by (intro exI [of _ new]) (auto simp: emittedFrom_Cons)
    next
      case (Return s1 e)
      from seqTask_stop [of E C bn "HeaderNoCopy b" s t s1 e] Return t(5)
      obtain new where "calls s1 = calls s @ new" "TxCommit \<notin> set new" "ranTasks new = [t]"
        by auto
      with Inr Return t show ?thesis
        by (intro exI [of _ new]) (auto simp: emittedFrom_Cons)
    qed
  qed
qed

lemma quiet_simps [simp]:
  "quiet []"
  "quiet (xs @ ys) = (quiet xs \<and> quiet ys)"
  by (auto simp: quiet_def)

lemma quiet_Cons:
  "quiet (c # cs) = (quiet [c] \<and> quiet cs)"
  by (auto simp: quiet_def)

lemma quiet_single [simp]:
  "quiet [BeginRw]" "quiet [TxNumsMax n]" "quiet [BlockWithSenders n]" "quiet [RawTransactions n]"
  "quiet [ReportBadHeaderPoS h p]" "quiet [UnwindTo n h]" "quiet [ComputeCommitment]"
  "quiet [AggFlush]" "quiet [ClearRam]" "quiet [BuildFilesInBackground n]" "quiet [Prune]"
  "quiet [StageUpdate n]" "quiet [TxCommit]" "quiet [StartRwLoop]" "quiet [WaitRwLoop]"
  by (simp_all add: quiet_def isApplyCall_def)

lemma beforeTasks_quiet:
  "\<exists>new. calls (flowState (beforeTasks E C A False block bn s)) = calls s @ new \<and> quiet new \<and>
     TxCommit \<notin> set new \<and>
     inputTxNum (flowState (beforeTasks E C A False block bn s)) = inputTxNum s"
  by (auto simp: beforeTasks_def fallible_def record_call_def split: option.splits)

lemma rootCheck_quiet:
  "\<exists>new. calls (flowState (rootCheck E C A par header s)) = calls s @ new \<and> quiet new \<and>
     TxCommit \<notin> set new \<and>
     inputTxNum (flowState (rootCheck E C A par header s)) = inputTxNum s"
  by (auto simp: rootCheck_def Let_def record_call_def quiet_def isApplyCall_def
           split: sum.splits option.splits)

lemma fallible_cases:
  "fallible f c s = Continue (record_call c s) \<or> (\<exists>e. fallible f c s = Return (record_call c s) e)"
  by (auto simp: fallible_def split: option.splits)

lemma fallible_quiet:
  "quiet [c] \<Longrightarrow>
   \<exists>new. calls (flowState (fallible f c s)) = calls s @ new \<and> quiet new \<and>
     inputTxNum (flowState (fallible f c s)) = inputTxNum s"
  by (auto simp: fallible_def record_call_def split: option.splits)

lemma keepsQuiet_andThen:
  assumes "keepsQuiet s r" and "\<And>s1. r = Continue s1 \<Longrightarrow> keepsQuiet s1 (f s1)"
  shows "keepsQuiet s (andThen r f)"
proof (cases r)
  case (Continue s1)
  from assms(1) Continue obtain new1 where 1: "calls s1 = calls s @ new1" "quiet new1"
    "inputTxNum s1 = inputTxNum s" unfolding keepsQuiet_def by auto
  from assms(2) [OF Continue] obtain new2 where 2: "calls (flowState (f s1)) = calls s1 @ new2"
    "quiet new2" "inputTxNum (flowState (f s1)) = inputTxNum s1" unfolding keepsQuiet_def by auto
  from 1 2 Continue show ?thesis
    unfolding keepsQuiet_def by (intro exI [of _ "new1 @ new2"]) simp
qed (use assms(1) in \<open>simp_all add: keepsQuiet_def\<close>)

lemma keepsQuiet_fallible: "quiet [c] \<Longrightarrow> keepsQuiet s (fallible f c s)"
  unfolding keepsQuiet_def by (rule fallible_quiet)

lemma keepsQuiet_Continue: "calls s1 = calls s @ new \<Longrightarrow> quiet new \<Longrightarrow>
  inputTxNum s1 = inputTxNum s \<Longrightarrow> keepsQuiet s (Continue s1)"
  unfolding keepsQuiet_def by auto

lemma keepsQuiet_trans:
  "keepsQuiet s (Continue s1) \<Longrightarrow> keepsQuiet s1 r \<Longrightarrow> keepsQuiet s r"
  unfolding keepsQuiet_def
  apply (elim exE conjE)
  subgoal for new1 new2 by (intro exI [of _ "new1 @ new2"]) simp
  done

lemma seqCommit_quiet: "keepsQuiet s (seqCommit E C A par bn s)"
  by (auto simp: seqCommit_def keepsQuiet_def andThen_def fallible_def record_call_def Let_def
        quiet_def isApplyCall_def split: option.splits sum.splits)

lemma keepsQuiet_I: "keepsQuiet s r \<Longrightarrow>
  \<exists>new. calls (flowState r) = calls s @ new \<and> quiet new \<and> inputTxNum (flowState r) = inputTxNum s"
  by (simp add: keepsQuiet_def)

text \<open>
  One round of the block loop on the sequential path: it stops before the tasks, or in
  them, or it gets through them and what follows neither runs nor applies a task.
\<close>

lemma blockRound_cases:
  assumes "blockRound E C A False block bn s = r"
  shows "(\<exists>new. calls (flowState r) = calls s @ new \<and> quiet new \<and> TxCommit \<notin> set new \<and>
            (\<forall>s'. r \<noteq> Continue s') \<and> inputTxNum (flowState r) = inputTxNum s) \<or>
         (\<exists>b s1 pre. blockReader_BlockByNumber E (calls s) bn = Inr (Some b) \<and>
            calls s1 = calls s @ pre \<and> quiet pre \<and> TxCommit \<notin> set pre \<and>
            inputTxNum s1 = inputTxNum s \<and> gasUsed s1 = 0 \<and>
            ((\<forall>s'. r \<noteq> Continue s') \<and>
               r = taskLoop E C False bn b [-1..int (length (Transactions b))] s1 \<or>
             (\<exists>s2 post. taskLoop E C False bn b [-1..int (length (Transactions b))] s1 = Continue s2 \<and>
                calls (flowState r) = calls s2 @ post \<and> quiet post \<and>
                inputTxNum (flowState r) = inputTxNum s2)))"
proof (cases "blockReader_BlockByNumber E (calls s) bn")
  case (Inl e)
  with assms show ?thesis
    by (intro disjI1 exI [of _ "[BlockWithSenders bn]"]) (auto simp: blockRound_def record_call_def)
next
  case (Inr ob)
  show ?thesis
  proof (cases ob)
    case None
    with Inr assms show ?thesis
      by (intro disjI1 exI [of _ "[BlockWithSenders bn]"]) (auto simp: blockRound_def record_call_def)
  next
    case (Some b)
    let ?s0 = "record_call (BlockWithSenders bn) s"
    let ?r1 = "beforeTasks E C A False block (Number (HeaderNoCopy b)) ?s0"
    from beforeTasks_quiet [of E C A block "Number (HeaderNoCopy b)" ?s0] obtain new1 where
      n1: "calls (flowState ?r1) = calls ?s0 @ new1" "quiet new1" "TxCommit \<notin> set new1"
          "inputTxNum (flowState ?r1) = inputTxNum ?s0" by blast
    have unfold: "r = andThen ?r1 (\<lambda>s1.
          andThen (taskLoop E C False bn b [-1..int (length (Transactions b))] (s1\<lparr>gasUsed := 0\<rparr>)) (\<lambda>s2.
          andThen (rootCheck E C A False (HeaderNoCopy b) s2) (\<lambda>s3.
          andThen (seqCommit E C A False bn s3) (\<lambda>s4.
            (case ctx_Done E (calls s4) of Some e \<Rightarrow> Return s4 e | None \<Rightarrow> Continue s4)))))"
      using assms Inr Some by (simp add: blockRound_def Let_def)
    show ?thesis
    proof (cases ?r1)
      case (Break s1)
      with unfold n1 show ?thesis
        by (intro disjI1 exI [of _ "BlockWithSenders bn # new1"])
           (auto simp: record_call_def quiet_def isApplyCall_def)
    next
      case (Return s1 e)
      with unfold n1 show ?thesis
        by (intro disjI1 exI [of _ "BlockWithSenders bn # new1"])
           (auto simp: record_call_def quiet_def isApplyCall_def)
    next
      case (Continue s1)
      let ?s1 = "s1\<lparr>gasUsed := 0\<rparr>"
      let ?r2 = "taskLoop E C False bn b [-1..int (length (Transactions b))] ?s1"
      have pre: "calls ?s1 = calls s @ (BlockWithSenders bn # new1)"
        "quiet (BlockWithSenders bn # new1)" "TxCommit \<notin> set (BlockWithSenders bn # new1)"
        "inputTxNum ?s1 = inputTxNum s" "gasUsed ?s1 = 0"
        using n1 Continue by (auto simp: record_call_def quiet_def isApplyCall_def)
      have r2: "r = andThen ?r2 (\<lambda>s2.
          andThen (rootCheck E C A False (HeaderNoCopy b) s2) (\<lambda>s3.
          andThen (seqCommit E C A False bn s3) (\<lambda>s4.
            (case ctx_Done E (calls s4) of Some e \<Rightarrow> Return s4 e | None \<Rightarrow> Continue s4))))"
        using unfold Continue by simp
      show ?thesis
      proof (cases ?r2)
        case (Break s2)
        with r2 pre Inr Some show ?thesis
          by (intro disjI2 exI [of _ b] exI [of _ ?s1] exI [of _ "BlockWithSenders bn # new1"]) simp
      next
        case (Return s2 e)
        with r2 pre Inr Some show ?thesis
          by (intro disjI2 exI [of _ b] exI [of _ ?s1] exI [of _ "BlockWithSenders bn # new1"]) simp
      next
        case c2: (Continue s2)
        let ?r3 = "rootCheck E C A False (HeaderNoCopy b) s2"
        have k3: "keepsQuiet s2 ?r3"
          using rootCheck_quiet [of E C A False "HeaderNoCopy b" s2] by (auto simp: keepsQuiet_def)
        have "keepsQuiet s2 (andThen ?r3 (\<lambda>s3.
          andThen (seqCommit E C A False bn s3) (\<lambda>s4.
            (case ctx_Done E (calls s4) of Some e \<Rightarrow> Return s4 e | None \<Rightarrow> Continue s4))))"
          by (intro keepsQuiet_andThen k3 seqCommit_quiet)
             (auto simp: keepsQuiet_def split: option.splits)
        with r2 c2 have "keepsQuiet s2 r" by simp
        from keepsQuiet_I [OF this] obtain post where
          "calls (flowState r) = calls s2 @ post" "quiet post"
          "inputTxNum (flowState r) = inputTxNum s2" by blast
        with c2 pre Inr Some show ?thesis
          by (intro disjI2 exI [of _ b] exI [of _ ?s1] exI [of _ "BlockWithSenders bn # new1"])
             auto
      qed
    qed
  qed
qed

lemma contiguousFrom_nth: "contiguousFrom n xs \<longleftrightarrow> (\<forall>k < length xs. xs ! k = n + of_nat k)"
  unfolding contiguousFrom_def by (subst list_eq_iff_nth_eq) simp

lemma contiguousFrom_append:
  assumes "contiguousFrom n xs" and "contiguousFrom (n + of_nat (length xs)) ys"
  shows "contiguousFrom n (xs @ ys)"
  unfolding contiguousFrom_nth
proof (intro allI impI)
  fix k assume "k < length (xs @ ys)"
  show "(xs @ ys) ! k = n + of_nat k"
  proof (cases "k < length xs")
    case True
    with assms(1) show ?thesis by (simp add: contiguousFrom_nth nth_append)
  next
    case False
    then have k: "k = length xs + (k - length xs)" by simp
    from False \<open>k < length (xs @ ys)\<close> have "k - length xs < length ys" by simp
    with assms(2) have "ys ! (k - length xs) = n + of_nat (length xs) + of_nat (k - length xs)"
      by (simp add: contiguousFrom_nth)
    also have "\<dots> = n + of_nat k"
      by (subst (2) k) (simp only: of_nat_add add.assoc)
    finally show ?thesis using False by (simp add: nth_append)
  qed
qed

lemma inOrder_append:
  "inOrder xs \<Longrightarrow> inOrder ys \<Longrightarrow> (xs \<noteq> [] \<Longrightarrow> ys \<noteq> [] \<Longrightarrow> follows (last xs) (hd ys)) \<Longrightarrow>
   inOrder (xs @ ys)"
proof (induction xs rule: inOrder.induct)
  fix t u ts
  assume "inOrder (u # ts) \<Longrightarrow> inOrder ys \<Longrightarrow>
            (u # ts \<noteq> [] \<Longrightarrow> ys \<noteq> [] \<Longrightarrow> follows (last (u # ts)) (hd ys)) \<Longrightarrow>
            inOrder ((u # ts) @ ys)"
    and "inOrder (t # u # ts)" and "inOrder ys"
    and "t # u # ts \<noteq> [] \<Longrightarrow> ys \<noteq> [] \<Longrightarrow> follows (last (t # u # ts)) (hd ys)"
  then show "inOrder ((t # u # ts) @ ys)" by simp
next
  show "inOrder ([] @ ys)" if "inOrder ys" using that by simp
next
  fix t
  assume "inOrder ys" and "[t] \<noteq> [] \<Longrightarrow> ys \<noteq> [] \<Longrightarrow> follows (last [t]) (hd ys)"
  then show "inOrder ([t] @ ys)" by (cases ys) simp_all
qed

lemma inOrder_nth:
  "(\<And>k. Suc k < length ts \<Longrightarrow> follows (ts ! k) (ts ! Suc k)) \<Longrightarrow> inOrder ts"
proof (induction ts rule: inOrder.induct)
  case (1 t u ts)
  from "1.prems" [of 0] have "follows t u" by simp
  moreover have "inOrder (u # ts)"
  proof (rule "1.IH")
    fix k assume "Suc k < length (u # ts)"
    with "1.prems" [of "Suc k"] show "follows ((u # ts) ! k) ((u # ts) ! Suc k)" by simp
  qed
  ultimately show ?case by simp
qed simp_all

lemma upto_from_m1_nth: "k < n + 2 \<Longrightarrow> [-1..int n] ! k = int k - 1"
  by simp

text \<open>The tasks of one block, as they follow from their indices.\<close>

lemma emittedFrom_block:
  assumes "emittedFrom bn b n [-1..int (length (Transactions b))] ts"
  shows "contiguousFrom n (map TxNum ts)" and "inOrder ts"
    and "ts \<noteq> [] \<Longrightarrow> TxIndex (hd ts) = -1 \<and> BlockNum (hd ts) = bn"
    and "length ts = length (Transactions b) + 2 \<Longrightarrow> Final (last ts) \<and> BlockNum (last ts) = bn"
proof -
  let ?len = "length (Transactions b)"
  from assms have len: "length ts \<le> ?len + 2"
    and nth: "\<And>k. k < length ts \<Longrightarrow>
       TxIndex (ts ! k) = int k - 1 \<and> TxNum (ts ! k) = n + of_nat k \<and> BlockNum (ts ! k) = bn \<and>
       Final (ts ! k) = (int k - 1 = int ?len)"
    by (auto simp: emittedFrom_def upto_from_m1_nth)
  show "contiguousFrom n (map TxNum ts)"
    using nth by (simp add: contiguousFrom_nth)
  show "inOrder ts"
  proof (rule inOrder_nth)
    fix k assume k: "Suc k < length ts"
    with len have "\<not> Final (ts ! k)" using nth [of k] by auto
    with k nth [of k] nth [of "Suc k"] show "follows (ts ! k) (ts ! Suc k)"
      by (simp add: follows_def)
  qed
  show "TxIndex (hd ts) = -1 \<and> BlockNum (hd ts) = bn" if "ts \<noteq> []"
    using that nth [of 0] by (simp add: hd_conv_nth)
  show "Final (last ts) \<and> BlockNum (last ts) = bn" if "length ts = ?len + 2"
  proof -
    from that have "ts \<noteq> []" by auto
    then have "last ts = ts ! (?len + 1)" using that by (simp add: last_conv_nth)
    with nth [of "?len + 1"] that show ?thesis by simp
  qed
qed

text \<open>A loop over the tasks that gets through: the flag of the block end, and the gas.\<close>

lemma taskLoop_atBlockEnd:
  "taskLoop E C False bn b idxs s = Continue s' \<Longrightarrow> idxs \<noteq> [] \<Longrightarrow>
   \<exists>new. calls s' = calls s @ new \<and>
     (\<forall>b0. atBlockEnd b0 new = (last idxs = int (length (Transactions b))))"
proof (induction idxs arbitrary: s)
  case Nil
  then show ?case by simp
next
  case (Cons i idxs)
  let ?t0 = "newTxTask bn b (inputTxNum s) i"
  from Cons.prems(1) obtain t where Inr: "attachTx (Transactions b) ?t0 = Inr t"
    by (auto split: sum.splits)
  from attachTx_Inr [OF Inr] have fin: "Final t = (i = int (length (Transactions b)))" by simp
  from Cons.prems(1) Inr obtain s1 where
    c1: "seqTask E C bn (HeaderNoCopy b) s t = Continue s1" and
    rest: "taskLoop E C False bn b idxs (s1\<lparr>stageProgress := bn, inputTxNum := inputTxNum s1 + 1\<rparr>)
             = Continue s'"
    by (auto split: flow.splits)
  let ?new1 = "[RunTxTask t, ApplyState4 (runTxTask E (calls s) t),
                ApplyLogsAndTraces (runTxTask E (calls s) t), CommitTxNum (runTxTask E (calls s) t)]"
  from seqTask_Continue [OF c1] have n1: "calls s1 = calls s @ ?new1" by simp
  show ?case
  proof (cases "idxs = []")
    case True
    with rest have "s' = s1\<lparr>stageProgress := bn, inputTxNum := inputTxNum s1 + 1\<rparr>" by simp
    with n1 True fin show ?thesis by (intro exI [of _ ?new1]) simp
  next
    case False
    from Cons.IH [OF rest False] obtain new2 where
      n2: "calls s' = calls s1 @ new2"
      and a2: "\<forall>b0. atBlockEnd b0 new2 = (last idxs = int (length (Transactions b)))"
      by auto
    from n1 n2 a2 False show ?thesis
      by (intro exI [of _ "?new1 @ new2"]) (simp add: atBlockEnd_append)
  qed
qed

lemma appliedGas_append [simp]: "appliedGas (xs @ ys) = appliedGas xs + appliedGas ys"
  by (simp add: appliedGas_def)

lemma taskLoop_gas:
  "taskLoop E C False bn b idxs s = Continue s' \<Longrightarrow>
   \<forall>i \<in> set idxs. i \<noteq> int (length (Transactions b)) \<Longrightarrow>
   \<exists>new. calls s' = calls s @ new \<and> gasUsed s' = gasUsed s + appliedGas new"
proof (induction idxs arbitrary: s)
  case Nil
  then show ?case by (simp add: appliedGas_def)
next
  case (Cons i idxs)
  let ?t0 = "newTxTask bn b (inputTxNum s) i"
  from Cons.prems(1) obtain t where Inr: "attachTx (Transactions b) ?t0 = Inr t"
    by (auto split: sum.splits)
  from attachTx_Inr [OF Inr] Cons.prems(2) have fin: "\<not> Final t" by simp
  from Cons.prems(1) Inr obtain s1 where
    c1: "seqTask E C bn (HeaderNoCopy b) s t = Continue s1" and
    rest: "taskLoop E C False bn b idxs (s1\<lparr>stageProgress := bn, inputTxNum := inputTxNum s1 + 1\<rparr>)
             = Continue s'"
    by (auto split: flow.splits)
  let ?t' = "runTxTask E (calls s) t"
  let ?new1 = "[RunTxTask t, ApplyState4 ?t', ApplyLogsAndTraces ?t', CommitTxNum ?t']"
  from seqTask_Continue [OF c1] have n1: "calls s1 = calls s @ ?new1"
    and g: "gasCheck (gasUsed s) ?t' = Inr (gasUsed s1)" by simp_all
  from g fin have g1: "gasUsed s1 = gasUsed s + UsedGas ?t'"
    by (auto simp: gasCheck_def split: option.splits if_splits)
  from Cons.IH [OF rest] Cons.prems(2) obtain new2 where
    n2: "calls s' = calls s1 @ new2" and
    g2: "gasUsed s' = gasUsed s1 + appliedGas new2" by auto
  from n1 n2 g1 g2 show ?case
    by (intro exI [of _ "?new1 @ new2"]) (simp add: appliedGas_def)
qed

lemma taskLoop_final_gas:
  assumes "taskLoop E C False bn b [int (length (Transactions b))] s = Continue s'"
  shows "\<exists>new. calls s' = calls s @ new \<and> gasUsed s' = 0 \<and>
           (bn > 0 \<longrightarrow> gasUsed s + appliedGas new = GasUsed (HeaderNoCopy b))"
proof -
  let ?i = "int (length (Transactions b))"
  let ?t0 = "newTxTask bn b (inputTxNum s) ?i"
  from assms obtain t where Inr: "attachTx (Transactions b) ?t0 = Inr t"
    by (auto split: sum.splits)
  from attachTx_Inr [OF Inr] have t: "Final t" "BlockNum t = bn" "TaskHeader t = HeaderNoCopy b"
    by simp_all
  from assms Inr obtain s1 where
    c1: "seqTask E C bn (HeaderNoCopy b) s t = Continue s1" and
    s': "s' = s1\<lparr>stageProgress := bn, inputTxNum := inputTxNum s1 + 1\<rparr>"
    by (auto split: flow.splits)
  let ?t' = "runTxTask E (calls s) t"
  let ?new1 = "[RunTxTask t, ApplyState4 ?t', ApplyLogsAndTraces ?t', CommitTxNum ?t']"
  from seqTask_Continue [OF c1] have n1: "calls s1 = calls s @ ?new1"
    and g: "gasCheck (gasUsed s) ?t' = Inr (gasUsed s1)" by simp_all
  from g t have "gasUsed s1 = 0 \<and> (bn > 0 \<longrightarrow> gasUsed s + UsedGas ?t' = GasUsed (HeaderNoCopy b))"
    by (auto simp: gasCheck_def split: option.splits if_splits)
  with n1 s' show ?thesis
    by (intro exI [of _ ?new1]) (simp add: appliedGas_def)
qed

lemma upto_from_m1_snoc: "[-1..int n] = [-1..int n - 1] @ [int n]"
  by (rule upto_rec2) simp

lemma taskLoop_block_gas:
  assumes "taskLoop E C False bn b [-1..int (length (Transactions b))] s = Continue s'"
  shows "\<exists>new. calls s' = calls s @ new \<and> gasUsed s' = 0 \<and>
           (bn > 0 \<longrightarrow> gasUsed s + appliedGas new = GasUsed (HeaderNoCopy b))"
proof -
  let ?n = "length (Transactions b)"
  from assms have "andThen (taskLoop E C False bn b [-1..int ?n - 1] s)
                     (taskLoop E C False bn b [int ?n]) = Continue s'"
    by (subst (asm) upto_from_m1_snoc) (simp only: taskLoop_append)
  then obtain s1 where
    1: "taskLoop E C False bn b [-1..int ?n - 1] s = Continue s1" and
    2: "taskLoop E C False bn b [int ?n] s1 = Continue s'"
    by (auto simp: andThen_Continue)
  from taskLoop_gas [OF 1] obtain new1 where
    n1: "calls s1 = calls s @ new1" "gasUsed s1 = gasUsed s + appliedGas new1" by auto
  from taskLoop_final_gas [OF 2] obtain new2 where
    n2: "calls s' = calls s1 @ new2" "gasUsed s' = 0"
    "bn > 0 \<longrightarrow> gasUsed s1 + appliedGas new2 = GasUsed (HeaderNoCopy b)" by auto
  from n1 n2 show ?thesis
    by (intro exI [of _ "new1 @ new2"]) (simp add: add.assoc)
qed

lemma quiet_commits: "quiet cs \<Longrightarrow> commitsAtBlockEnd True cs \<and> atBlockEnd b cs = b"
proof -
  assume "quiet cs"
  then have na: "list_all (\<lambda>c. \<not> isApplyCall c) cs" by (simp add: quiet_def)
  then have "commitsAtBlockEnd True cs"
    by (induction cs) (auto simp: isApplyCall_def split: call.splits)
  with na show ?thesis by (simp add: atBlockEnd_noApply)
qed

lemma blockRound_summary:
  "\<exists>new. calls (flowState (blockRound E C A False block bn s)) = calls s @ new \<and>
     (\<forall>b0. commitsAtBlockEnd b0 new) \<and>
     roundTasks bn (inputTxNum s) (ranTasks new) \<and>
     (\<forall>s'. blockRound E C A False block bn s = Continue s' \<longrightarrow>
        ranTasks new \<noteq> [] \<and> Final (last (ranTasks new)) \<and> BlockNum (last (ranTasks new)) = bn \<and>
        inputTxNum s' = inputTxNum s + of_nat (length (ranTasks new)))"
proof -
  let ?r = "blockRound E C A False block bn s"
  from blockRound_cases [OF refl, of E C A block bn s]
  consider
    (early) new where "calls (flowState ?r) = calls s @ new" "quiet new" "TxCommit \<notin> set new"
      "\<forall>s'. ?r \<noteq> Continue s'"
  | (tasks) b s1 pre where "blockReader_BlockByNumber E (calls s) bn = Inr (Some b)"
      "calls s1 = calls s @ pre" "quiet pre" "TxCommit \<notin> set pre" "inputTxNum s1 = inputTxNum s"
      "\<forall>s'. ?r \<noteq> Continue s'" "?r = taskLoop E C False bn b [-1..int (length (Transactions b))] s1"
  | (through) b s1 pre s2 post where "blockReader_BlockByNumber E (calls s) bn = Inr (Some b)"
      "calls s1 = calls s @ pre" "quiet pre" "TxCommit \<notin> set pre" "inputTxNum s1 = inputTxNum s"
      "taskLoop E C False bn b [-1..int (length (Transactions b))] s1 = Continue s2"
      "calls (flowState ?r) = calls s2 @ post" "quiet post"
      "inputTxNum (flowState ?r) = inputTxNum s2"
    by blast
  then show ?thesis
  proof cases
    case early
    then show ?thesis
      by (intro exI [of _ new])
         (auto simp: commitsAtBlockEnd_noCommit roundTasks_def quiet_def)
  next
    case tasks
    let ?idxs = "[-1..int (length (Transactions b))]"
    from taskLoop_emitted [of E C bn b ?idxs s1] obtain new where
      n: "calls (flowState (taskLoop E C False bn b ?idxs s1)) = calls s1 @ new"
      and m: "TxCommit \<notin> set new"
      and e: "emittedFrom bn b (inputTxNum s1) ?idxs (ranTasks new)" by blast
    from tasks(3) have rp: "ranTasks pre = []" by (simp add: quiet_def)
    from emittedFrom_block(1-3) [OF e] tasks(5)
    have "roundTasks bn (inputTxNum s) (ranTasks new)"
      by (auto simp: roundTasks_def)
    with tasks n m rp show ?thesis
      by (intro exI [of _ "pre @ new"]) (auto simp: commitsAtBlockEnd_noCommit)
  next
    case through
    let ?idxs = "[-1..int (length (Transactions b))]"
    from taskLoop_emitted [of E C bn b ?idxs s1] through(6) obtain new where
      n: "calls s2 = calls s1 @ new"
      and m: "TxCommit \<notin> set new"
      and e: "emittedFrom bn b (inputTxNum s1) ?idxs (ranTasks new)"
      and l: "length (ranTasks new) = length ?idxs"
      and i: "inputTxNum s2 = inputTxNum s1 + of_nat (length ?idxs)" by auto
    have idxs: "?idxs \<noteq> []" "last ?idxs = int (length (Transactions b))"
      by (subst upto_from_m1_snoc, simp)+
    from taskLoop_atBlockEnd [OF through(6) idxs(1)] n idxs(2)
    have a: "\<forall>b0. atBlockEnd b0 new" by auto
    from through(3,8) have rp: "ranTasks pre = []" "ranTasks post = []" by (simp_all add: quiet_def)
    from l have len: "length (ranTasks new) = length (Transactions b) + 2" by simp
    then have ne: "ranTasks new \<noteq> []" by auto
    from emittedFrom_block [OF e] through(5) len
    have rt: "roundTasks bn (inputTxNum s) (ranTasks new)"
      and fl: "Final (last (ranTasks new)) \<and> BlockNum (last (ranTasks new)) = bn"
      by (auto simp: roundTasks_def)
    have cm: "commitsAtBlockEnd b0 (pre @ new @ post)" for b0
      using through(4) m a quiet_commits [OF through(3)] quiet_commits [OF through(8)]
      by (simp add: commitsAtBlockEnd_append atBlockEnd_append commitsAtBlockEnd_noCommit)
    show ?thesis
      using through(2,5,7,9) n rp rt fl ne cm i l
      by (intro exI [of _ "pre @ new @ post"]) auto
  qed
qed

lemma roundTasks_append:
  assumes "roundTasks bn n ts1" and "ts1 \<noteq> []" and "Final (last ts1)" and "BlockNum (last ts1) = bn"
    and "roundTasks (bn + 1) (n + of_nat (length ts1)) ts2"
  shows "roundTasks bn n (ts1 @ ts2)"
proof -
  from assms(1,5) have "contiguousFrom n (map TxNum ts1 @ map TxNum ts2)"
    by (intro contiguousFrom_append) (simp_all add: roundTasks_def)
  moreover have "inOrder (ts1 @ ts2)"
  proof (rule inOrder_append)
    show "inOrder ts1" "inOrder ts2" using assms(1,5) by (simp_all add: roundTasks_def)
    show "follows (last ts1) (hd ts2)" if "ts2 \<noteq> []"
      using that assms(3,4,5) by (simp add: roundTasks_def follows_def)
  qed
  ultimately show ?thesis using assms(1,2) by (simp add: roundTasks_def)
qed

lemma blockLoop_summary:
  "blockLoop fuel E C A False block bn s = Some r \<Longrightarrow>
   \<exists>new. calls (flowState r) = calls s @ new \<and> (\<forall>b0. commitsAtBlockEnd b0 new) \<and>
     roundTasks bn (inputTxNum s) (ranTasks new)"
proof (induction fuel arbitrary: bn s)
  case 0
  then show ?case by simp
next
  case (Suc fuel)
  show ?case
  proof (cases "bn \<le> maxBlockNum A")
    case False
    with Suc.prems show ?thesis by (auto simp: roundTasks_def)
  next
    case True
    let ?r1 = "blockRound E C A False block bn s"
    from blockRound_summary [of E C A block bn s] obtain new1 where
      n1: "calls (flowState ?r1) = calls s @ new1" and
      c1: "\<forall>b0. commitsAtBlockEnd b0 new1" and
      t1: "roundTasks bn (inputTxNum s) (ranTasks new1)" and
      k1: "\<forall>s'. ?r1 = Continue s' \<longrightarrow>
        ranTasks new1 \<noteq> [] \<and> Final (last (ranTasks new1)) \<and> BlockNum (last (ranTasks new1)) = bn \<and>
        inputTxNum s' = inputTxNum s + of_nat (length (ranTasks new1))"
      by blast
    show ?thesis
    proof (cases ?r1)
      case (Continue s1)
      with True Suc.prems have run: "blockLoop fuel E C A False block (bn + 1) s1 = Some r" by simp
      from Suc.IH [OF run] obtain new2 where
        n2: "calls (flowState r) = calls s1 @ new2" and
        c2: "\<forall>b0. commitsAtBlockEnd b0 new2" and
        t2: "roundTasks (bn + 1) (inputTxNum s1) (ranTasks new2)" by blast
      from k1 Continue have k: "ranTasks new1 \<noteq> []" "Final (last (ranTasks new1))"
        "BlockNum (last (ranTasks new1)) = bn"
        "inputTxNum s1 = inputTxNum s + of_nat (length (ranTasks new1))" by simp_all
      from roundTasks_append [OF t1 k(1-3)] t2 k(4)
      have "roundTasks bn (inputTxNum s) (ranTasks new1 @ ranTasks new2)" by simp
      with n1 n2 c1 c2 Continue show ?thesis
        by (intro exI [of _ "new1 @ new2"]) (simp add: commitsAtBlockEnd_append)
    next
      case (Break s1)
      with True Suc.prems have "r = ?r1" by simp
      with n1 c1 t1 show ?thesis by (intro exI [of _ new1]) simp
    next
      case (Return s1 e)
      with True Suc.prems have "r = ?r1" by simp
      with n1 c1 t1 show ?thesis by (intro exI [of _ new1]) simp
    qed
  qed
qed

text \<open>The loop over the blocks ends when it may make enough rounds.\<close>

lemma blockLoop_returns:
  "0 < fuel \<Longrightarrow> maxBlockNum A \<noteq> - 1 \<Longrightarrow> unat (maxBlockNum A) + 1 < fuel + unat bn \<Longrightarrow>
   blockLoop fuel E C A par block bn s \<noteq> None"
proof (induction fuel arbitrary: bn s)
  case 0
  then show ?case by simp
next
  case (Suc fuel)
  show ?case
  proof (cases "bn \<le> maxBlockNum A")
    case False
    then show ?thesis by simp
  next
    case True
    then have le: "unat bn \<le> unat (maxBlockNum A)" by (simp add: word_le_nat_alt)
    from True Suc.prems(2) have "bn \<noteq> - 1"
      using word_order.extremum_uniqueI by blast
    then have "1 + bn \<noteq> 0"
      by (metis add_eq_0_iff)
    then have suc: "unat (bn + 1) = unat bn + 1"
      using unatSuc [of bn] by (simp add: add.commute)
    from le Suc.prems(3) have pos: "0 < fuel" by simp
    from suc Suc.prems(3) have "unat (maxBlockNum A) + 1 < fuel + unat (bn + 1)" by simp
    from Suc.IH [OF pos Suc.prems(2) this] True show ?thesis
      by (auto split: flow.splits)
  qed
qed

lemma appliedTasks_append [simp]: "appliedTasks (xs @ ys) = appliedTasks xs @ appliedTasks ys"
  by (simp add: appliedTasks_def)

lemma noneFailed_append [simp]: "noneFailed (xs @ ys) = (noneFailed xs \<and> noneFailed ys)"
  by (simp add: noneFailed_def)

lemma noneFailed_Nil [simp]: "noneFailed []"
  by (simp add: noneFailed_def appliedTasks_def)

lemma quiet_noneFailed: "quiet cs \<Longrightarrow> noneFailed cs"
  unfolding quiet_def noneFailed_def appliedTasks_def
  by (induction cs) (auto simp: isApplyCall_def split: call.splits)

lemma gasCheck_Inr: "gasCheck g t = Inr g' \<Longrightarrow> Error t = None"
  by (auto simp: gasCheck_def split: option.splits)

lemma seqTask_applied:
  "\<exists>new. calls (flowState (seqTask E C bn h s t)) = calls s @ new \<and> noneFailed new"
  by (auto simp: seqTask_def Let_def record_call_def noneFailed_def appliedTasks_def
        dest: gasCheck_Inr split: sum.splits option.splits)

lemma taskLoop_applied:
  "\<exists>new. calls (flowState (taskLoop E C False bn b idxs s)) = calls s @ new \<and> noneFailed new"
proof (induction idxs arbitrary: s)
  case Nil
  show ?case by simp
next
  case (Cons i idxs)
  show ?case
  proof (cases "attachTx (Transactions b) (newTxTask bn b (inputTxNum s) i)")
    case (Inl e)
    then show ?thesis by simp
  next
    case (Inr t)
    from seqTask_applied [of E C bn "HeaderNoCopy b" s t] obtain new1 where
      n1: "calls (flowState (seqTask E C bn (HeaderNoCopy b) s t)) = calls s @ new1" "noneFailed new1"
      by blast
    show ?thesis
    proof (cases "seqTask E C bn (HeaderNoCopy b) s t")
      case (Continue s1)
      let ?s1 = "s1\<lparr>stageProgress := bn, inputTxNum := inputTxNum s1 + 1\<rparr>"
      from Cons.IH [of ?s1] obtain new2 where
        "calls (flowState (taskLoop E C False bn b idxs ?s1)) = calls ?s1 @ new2" "noneFailed new2"
        by blast
      with n1 Inr Continue show ?thesis by (intro exI [of _ "new1 @ new2"]) simp
    next
      case (Break s1)
      with n1 Inr show ?thesis by (intro exI [of _ new1]) simp
    next
      case (Return s1 e)
      with n1 Inr show ?thesis by (intro exI [of _ new1]) simp
    qed
  qed
qed

lemma blockRound_applied:
  "\<exists>new. calls (flowState (blockRound E C A False block bn s)) = calls s @ new \<and> noneFailed new"
proof -
  let ?r = "blockRound E C A False block bn s"
  from blockRound_cases [OF refl, of E C A block bn s]
  consider
    (early) new where "calls (flowState ?r) = calls s @ new" "quiet new"
  | (tasks) b s1 pre where "calls s1 = calls s @ pre" "quiet pre"
      "?r = taskLoop E C False bn b [-1..int (length (Transactions b))] s1"
  | (through) b s1 pre s2 post where "calls s1 = calls s @ pre" "quiet pre"
      "taskLoop E C False bn b [-1..int (length (Transactions b))] s1 = Continue s2"
      "calls (flowState ?r) = calls s2 @ post" "quiet post"
    by blast
  then show ?thesis
  proof cases
    case early
    then show ?thesis by (intro exI [of _ new]) (simp add: quiet_noneFailed)
  next
    case tasks
    from taskLoop_applied [of E C bn b "[-1..int (length (Transactions b))]" s1] tasks(3)
    obtain new where "calls (flowState ?r) = calls s1 @ new" "noneFailed new" by auto
    with tasks show ?thesis by (intro exI [of _ "pre @ new"]) (simp add: quiet_noneFailed)
  next
    case through
    from taskLoop_applied [of E C bn b "[-1..int (length (Transactions b))]" s1] through(3)
    obtain new where "calls s2 = calls s1 @ new" "noneFailed new" by auto
    with through show ?thesis
      by (intro exI [of _ "pre @ new @ post"]) (simp add: quiet_noneFailed)
  qed
qed

lemma blockLoop_applied:
  "blockLoop fuel E C A False block bn s = Some r \<Longrightarrow>
   \<exists>new. calls (flowState r) = calls s @ new \<and> noneFailed new"
proof (induction fuel arbitrary: bn s)
  case 0
  then show ?case by simp
next
  case (Suc fuel)
  show ?case
  proof (cases "bn \<le> maxBlockNum A")
    case False
    with Suc.prems show ?thesis by auto
  next
    case True
    let ?r1 = "blockRound E C A False block bn s"
    from blockRound_applied [of E C A block bn s] obtain new1 where
      n1: "calls (flowState ?r1) = calls s @ new1" "noneFailed new1" by blast
    show ?thesis
    proof (cases ?r1)
      case (Continue s1)
      with True Suc.prems have "blockLoop fuel E C A False block (bn + 1) s1 = Some r" by simp
      from Suc.IH [OF this] obtain new2 where
        "calls (flowState r) = calls s1 @ new2" "noneFailed new2" by blast
      with n1 Continue show ?thesis by (intro exI [of _ "new1 @ new2"]) simp
    next
      case (Break s1)
      with True Suc.prems have "r = ?r1" by simp
      with n1 show ?thesis by (intro exI [of _ new1]) simp
    next
      case (Return s1 e)
      with True Suc.prems have "r = ?r1" by simp
      with n1 show ?thesis by (intro exI [of _ new1]) simp
    qed
  qed
qed

text \<open>The start and the end of \<^verbatim>\<open>ExecV3\<close> neither run nor apply a task.\<close>

lemma startExec_quiet:
  "quiet (calls (flowState (startExec E A False))) \<and>
   TxCommit \<notin> set (calls (flowState (startExec E A False)))"
  by (auto simp: startExec_def firstBlock_def Let_def fallible_def record_call_def andThen_def
        quiet_def isApplyCall_def split: option.splits sum.splits)

lemma afterLoop_quiet: "keepsQuiet s (afterLoop E C A False s)"
  by (auto simp: afterLoop_def keepsQuiet_def andThen_def fallible_def record_call_def Let_def
        quiet_def isApplyCall_def split: option.splits)

text \<open>
  The calls of a run of \<^verbatim>\<open>ExecV3\<close>: those of the start, those of the loop over the
  blocks, and those after the loop.
\<close>

lemma execBody_calls:
  assumes "execBody fuel E C A False = Some (s', err)"
  shows "\<exists>pre mid post. calls s' = pre @ mid @ post \<and> quiet pre \<and> TxCommit \<notin> set pre \<and> quiet post \<and>
           (\<forall>b0. commitsAtBlockEnd b0 mid) \<and> noneFailed mid \<and>
           roundTasks (firstBlock A) (inputTxNum (flowState (startExec E A False))) (ranTasks mid)"
proof (cases "startExec E A False")
  case (Continue s0)
  from startExec_quiet [of E A] Continue
  have q0: "quiet (calls s0)" "TxCommit \<notin> set (calls s0)" by simp_all
  from assms Continue obtain r where
    loop: "blockLoop fuel E C A False (firstBlock A) (firstBlock A) s0 = Some r"
    by (auto simp: execBody_def split: option.splits)
  from blockLoop_summary [OF loop] obtain mid where
    m: "calls (flowState r) = calls s0 @ mid" "\<forall>b0. commitsAtBlockEnd b0 mid"
       "roundTasks (firstBlock A) (inputTxNum s0) (ranTasks mid)" by blast
  from blockLoop_applied [OF loop] m(1) have nf: "noneFailed mid" by auto
  show ?thesis
  proof (cases r)
    case (Return s1 e)
    with assms Continue loop have "s' = s1" by (simp add: execBody_def)
    with m nf q0 Return Continue show ?thesis
      by (intro exI [of _ "calls s0"] exI [of _ mid] exI [of _ "[]"]) simp
  next
    case c: (Continue s1)
    with assms Continue loop have "s' = flowState (afterLoop E C A False s1)"
      by (auto simp: execBody_def finish_def split: flow.splits)
    with keepsQuiet_I [OF afterLoop_quiet [of s1 E C A]] obtain post where
      "calls s' = calls s1 @ post" "quiet post" by auto
    with m nf q0 c Continue show ?thesis
      by (intro exI [of _ "calls s0"] exI [of _ mid] exI [of _ post]) simp
  next
    case b: (Break s1)
    with assms Continue loop have "s' = flowState (afterLoop E C A False s1)"
      by (auto simp: execBody_def finish_def split: flow.splits)
    with keepsQuiet_I [OF afterLoop_quiet [of s1 E C A]] obtain post where
      "calls s' = calls s1 @ post" "quiet post" by auto
    with m nf q0 b Continue show ?thesis
      by (intro exI [of _ "calls s0"] exI [of _ mid] exI [of _ post]) simp
  qed
next
  case (Break s0)
  with assms have "s' = s0" by (simp add: execBody_def finish_def)
  with startExec_quiet [of E A] Break show ?thesis
    by (intro exI [of _ "calls s0"] exI [of _ "[]"] exI [of _ "[]"]) (simp add: roundTasks_def)
next
  case (Return s0 e)
  with assms have "s' = s0" by (simp add: execBody_def finish_def)
  with startExec_quiet [of E A] Return show ?thesis
    by (intro exI [of _ "calls s0"] exI [of _ "[]"] exI [of _ "[]"]) (simp add: roundTasks_def)
qed






section \<open>Where the transaction is committed\<close>








text \<open>
  Claim C9: what \<^verbatim>\<open>ExecV3\<close> does is independent of the \<^verbatim>\<open>parallel\<close> argument.
  Two calls that differ in it only give the same result, which is that of the sequential
  path.
\<close>

theorem ExecV3_ignores_parallel:
  "ExecV3 fuel E C A p = ExecV3 fuel E C A q \<and> ExecV3 fuel E C A p = execBody fuel E C A False"
  by (simp add: ExecV3_def)

lemma parallelBody:
  "outcome (execBody (Suc (Suc 0)) envWrongRoot cfg0 argsGenesis True) =
          Some ([TxNumsMax 0, StartRwLoop, BlockWithSenders 0,
                 AddWork (newTxTask 0 (emptyBlock 0 0) 0 (-1)),
                 AddWork (newTxTask 0 (emptyBlock 0 0) 1 0), WaitRwLoop], None)"
  by (simp add: eval_exec envWrongRoot_def envOK_def cfg0_def argsGenesis_def emptyBlock_def
          headerOf_def)

lemma sequentialBody:
  "outcome (execBody (Suc (Suc 0)) envWrongRoot cfg0 argsGenesis False) =
     Some ([BeginRw, TxNumsMax 0, BlockWithSenders 0,
            RunTxTask (newTxTask 0 (emptyBlock 0 0) 0 (-1)),
            ApplyState4 (newTxTask 0 (emptyBlock 0 0) 0 (-1)),
            ApplyLogsAndTraces (newTxTask 0 (emptyBlock 0 0) 0 (-1)),
            CommitTxNum (newTxTask 0 (emptyBlock 0 0) 0 (-1)),
            RunTxTask (newTxTask 0 (emptyBlock 0 0) 1 0),
            ApplyState4 (newTxTask 0 (emptyBlock 0 0) 1 0),
            ApplyLogsAndTraces (newTxTask 0 (emptyBlock 0 0) 1 0),
            CommitTxNum (newTxTask 0 (emptyBlock 0 0) 1 0),
            ComputeCommitment, AggFlush, AggFlush, StageUpdate 0, TxCommit], None)"
  by (simp add: eval_exec envWrongRoot_def envOK_def cfg0_def argsGenesis_def emptyBlock_def headerOf_def)

text \<open>
  Claim C9 at a concrete input, where the body of the function would do something else
  with the flag set: it would hand the tasks to the workers instead of running them.
\<close>

theorem ExecV3_ignores_parallel_witness:
  "ExecV3 (Suc (Suc 0)) envWrongRoot cfg0 argsGenesis True =
     ExecV3 (Suc (Suc 0)) envWrongRoot cfg0 argsGenesis False \<and>
   ExecV3 (Suc (Suc 0)) envWrongRoot cfg0 argsGenesis True =
     execBody (Suc (Suc 0)) envWrongRoot cfg0 argsGenesis False \<and>
   outcome (execBody (Suc (Suc 0)) envWrongRoot cfg0 argsGenesis True) \<noteq>
     outcome (execBody (Suc (Suc 0)) envWrongRoot cfg0 argsGenesis False)"
proof -
  have "outcome (execBody (Suc (Suc 0)) envWrongRoot cfg0 argsGenesis True) \<noteq>
     outcome (execBody (Suc (Suc 0)) envWrongRoot cfg0 argsGenesis False)"
    by (simp add: parallelBody sequentialBody)
  with ExecV3_ignores_parallel [of "Suc (Suc 0)" envWrongRoot cfg0 argsGenesis True False]
  show ?thesis by blast
qed

lemma applyStep_applied:
  "Error t = None \<Longrightarrow>
   \<exists>new. calls (flowState (applyStep E bp fs s t)) = calls s @ new \<and> noneFailed new"
  by (auto simp: applyStep_def Let_def record_call_def noneFailed_def appliedTasks_def
        split: option.splits)

lemma loopBody_applied:
  "\<exists>new. calls (flowState (loopBody E bp cr fs s t)) = calls s @ new \<and> noneFailed new"
proof (cases "isConflict E s t")
  case False
  then have "Error t = None" by (simp add: isConflict_def)
  from applyStep_applied [OF this, of E bp fs s] False show ?thesis by (simp add: loopBody_def)
next
  case conflict: True
  show ?thesis
  proof (cases "0 < i_conflict s \<and> cr")
    case True
    with conflict show ?thesis
      by (auto simp: loopBody_def Let_def record_call_def noneFailed_def appliedTasks_def)
  next
    case False
    let ?t = "runTxTask E (calls s) t"
    show ?thesis
    proof (cases "Error ?t")
      case None
      let ?s = "(record_call (RunTxTask t) (s\<lparr>conflicts := conflicts s + 1\<rparr>))
                  \<lparr>i_conflict := i_conflict s + 1\<rparr>"
      from applyStep_applied [OF None, of E bp fs ?s] obtain new where
        n: "calls (flowState (applyStep E bp fs ?s ?t)) = calls ?s @ new" "noneFailed new"
        by blast
      have body: "loopBody E bp cr fs s t = applyStep E bp fs ?s ?t"
        using None False conflict by (auto simp: loopBody_def Let_def record_call_def)
      from n show ?thesis unfolding body
        by (intro exI [of _ "RunTxTask t # new"])
           (auto simp: record_call_def noneFailed_def appliedTasks_def)
    next
      case (Some e)
      with False conflict show ?thesis
        by (auto simp: loopBody_def Let_def record_call_def noneFailed_def appliedTasks_def)
    qed
  qed
qed

lemma resultLoop_applied:
  "resultLoop E bp cr fs heap s = (heap', r, err) \<Longrightarrow>
   \<exists>new. calls r = calls s @ new \<and> noneFailed new"
proof (induction E bp cr fs heap s arbitrary: heap' r err rule: resultLoop.induct)
  case (1 E bp cr fs heap s)
  show ?case
  proof (cases "HasNext heap (outputTxNum s)")
    case False
    with "1.prems" show ?thesis by (auto simp: resultLoop.simps)
  next
    case True
    let ?t = "fst (PopNext heap)"
    let ?s1 = "flowState (loopBody E bp cr fs s ?t)"
    from loopBody_applied [of E bp cr fs s ?t] obtain new1 where
      n1: "calls ?s1 = calls s @ new1" "noneFailed new1" by blast
    have stop: ?thesis if "r = ?s1" using that n1 by (intro exI [of _ new1]) simp
    show ?thesis
    proof (cases "loopBody E bp cr fs s ?t")
      case (Continue s1)
      with True "1.prems" have run: "resultLoop E bp cr fs (snd (PopNext heap)) s1 = (heap', r, err)"
        by (simp add: resultLoop.simps)
      from "1.IH" [OF True Continue run] obtain new2 where
        "calls r = calls s1 @ new2" "noneFailed new2" by blast
      with n1 Continue show ?thesis by (intro exI [of _ "new1 @ new2"]) simp
    next
      case (Break s1)
      with True "1.prems" have "r = ?s1" by (simp add: resultLoop.simps)
      then show ?thesis by (rule stop)
    next
      case (Return s1 e)
      with True "1.prems" have "r = ?s1" by (simp add: resultLoop.simps)
      then show ?thesis by (rule stop)
    qed
  qed
qed

text \<open>
  Claim C10: a task whose execution reports an error is not applied. On the sequential
  path, after an error of the run or a failed gas check, the task does not go on, none of
  \<^verbatim>\<open>ApplyState4\<close>, \<^verbatim>\<open>ApplyLogsAndTraces\<close> and \<^verbatim>\<open>CommitTxNum\<close> is called and
  \<^verbatim>\<open>outputTxNum\<close> stays. In \<^verbatim>\<open>processResultQueue\<close>, when the re-execution in place
  still reports an error, the only call is that re-execution and the function returns. In
  every run of either function, every task handed to one of the three calls has no error.
\<close>

theorem failed_task_is_not_applied:
  "(Error t = None \<and>
    (Error (runTxTask E (calls s) t) \<noteq> None \<or>
     Final t \<and> BlockNum t > 0 \<and>
     gasUsed s + UsedGas (runTxTask E (calls s) t) \<noteq> GasUsed (TaskHeader t)) \<longrightarrow>
      (\<forall>s'. seqTask E C blockNum header s t \<noteq> Continue s') \<and>
      outputTxNum (flowState (seqTask E C blockNum header s t)) = outputTxNum s \<and>
      list_all (\<lambda>c. \<not> isApplyCall c) (newCalls s (flowState (seqTask E C blockNum header s t)))) \<and>
   (isConflict E q t \<and> \<not> (0 < i_conflict q \<and> cr) \<and> Error (runTxTask E (calls q) t) \<noteq> None \<longrightarrow>
      (\<forall>q'. loopBody E bp cr fs q t \<noteq> Continue q' \<and> loopBody E bp cr fs q t \<noteq> Break q') \<and>
      outputTxNum (flowState (loopBody E bp cr fs q t)) = outputTxNum q \<and>
      newCalls q (flowState (loopBody E bp cr fs q t)) = [RunTxTask t]) \<and>
   (\<forall>s' err. ExecV3 fuel E C A p = Some (s', err) \<longrightarrow> noneFailed (calls s')) \<and>
   (\<forall>heap' r err. processResultQueue E cs heap n bp cr fs = (heap', r, err) \<longrightarrow>
      noneFailed (drop (length cs) (calls r)))"
proof (intro conjI impI allI)
  assume a: "Error t = None \<and>
    (Error (runTxTask E (calls s) t) \<noteq> None \<or>
     Final t \<and> BlockNum t > 0 \<and>
     gasUsed s + UsedGas (runTxTask E (calls s) t) \<noteq> GasUsed (TaskHeader t))"
  then have "\<exists>err. gasCheck (gasUsed s) (runTxTask E (calls s) t) = Inl err"
    by (cases "Error (runTxTask E (calls s) t)") (auto simp: gasCheck_def)
  then obtain err where g: "gasCheck (gasUsed s) (runTxTask E (calls s) t) = Inl err" ..
  from a have e: "Error t = None" by simp
  note f = seqTask_failed [OF e g, of C blockNum header]
  show "seqTask E C blockNum header s t \<noteq> Continue s'" for s'
    unfolding f by (simp add: Let_def)
  show "outputTxNum (flowState (seqTask E C blockNum header s t)) = outputTxNum s"
    unfolding f by (simp add: Let_def record_call_def)
  show "list_all (\<lambda>c. \<not> isApplyCall c) (newCalls s (flowState (seqTask E C blockNum header s t)))"
    unfolding f by (simp add: Let_def record_call_def newCalls_def isApplyCall_def)
next
  assume a: "isConflict E q t \<and> \<not> (0 < i_conflict q \<and> cr) \<and> Error (runTxTask E (calls q) t) \<noteq> None"
  then obtain e where e: "Error (runTxTask E (calls q) t) = Some e" by auto
  have body: "loopBody E bp cr fs q t =
      Return ((record_call (RunTxTask t) (q\<lparr>conflicts := conflicts q + 1\<rparr>))
                \<lparr>stopedAtBlockEnd := False\<rparr>) e"
    using a e by (auto simp: loopBody_def Let_def)
  show "loopBody E bp cr fs q t \<noteq> Continue q'" "loopBody E bp cr fs q t \<noteq> Break q'" for q'
    unfolding body by simp_all
  show "outputTxNum (flowState (loopBody E bp cr fs q t)) = outputTxNum q"
    unfolding body by (simp add: record_call_def)
  show "newCalls q (flowState (loopBody E bp cr fs q t)) = [RunTxTask t]"
    unfolding body by (simp add: record_call_def newCalls_def)
next
  fix s' err assume "ExecV3 fuel E C A p = Some (s', err)"
  then have "execBody fuel E C A False = Some (s', err)" by (simp add: ExecV3_def)
  from execBody_calls [OF this] show "noneFailed (calls s')"
    by (auto simp: quiet_noneFailed)
next
  fix heap' r err assume "processResultQueue E cs heap n bp cr fs = (heap', r, err)"
  then have "resultLoop E bp cr fs heap
      \<lparr>calls = cs, outputTxNum = n, conflicts = 0, triggers = 0,
       processedBlockNum = 0, stopedAtBlockEnd = False, i_conflict = 0\<rparr> = (heap', r, err)"
    by (simp add: processResultQueue_def)
  from resultLoop_applied [OF this] show "noneFailed (drop (length cs) (calls r))" by auto
qed


lemma runRevertBlocks:
  "outcome (ExecV3 (Suc 0) envRevertBlocks cfg0 argsBlock2 True) =
     Some ([BeginRw, TxNumsMax 2, TxNumsMax 1, BlockWithSenders 2,
            RunTxTask (newTxTask 2 (oneTxBlock 2) 1 (-1)),
            UnwindTo 1 [1], AggFlush, StageUpdate 1, TxCommit], None)"
  by (simp add: eval_exec envRevertBlocks_def envRevert_def envOK_def cfg0_def argsBlock2_def
        oneTxBlock_def headerOf_def)

text \<open>
  Claim C10 at concrete inputs, where every run of a task reports an error: the task
  with number 5 is neither applied by the sequential step nor by the apply path.
\<close>

theorem failed_task_is_not_applied_witness:
  "outputTxNum (flowState (seqTask envRevertBlocks cfg0 1 header0 execStart (mkTask 1 5 0 False)))
     = outputTxNum execStart \<and>
   filter isApplyCall
     (newCalls execStart (flowState (seqTask envRevertBlocks cfg0 1 header0 execStart (mkTask 1 5 0 False))))
     = [] \<and>
   newCalls \<lparr>calls = [], outputTxNum = 5, conflicts = 0, triggers = 0, processedBlockNum = 0,
             stopedAtBlockEnd = False, i_conflict = 0\<rparr>
     (flowState (loopBody envRevertBlocks False True False
        \<lparr>calls = [], outputTxNum = 5, conflicts = 0, triggers = 0, processedBlockNum = 0,
         stopedAtBlockEnd = False, i_conflict = 0\<rparr> (mkTask 1 5 0 False)))
     = [RunTxTask (mkTask 1 5 0 False)] \<and>
   noneFailed (calls (fst (snd (processResultQueue envRevertBlocks [] heap56 5 False True False)))) \<and>
   noneFailed (fst (the (outcome (ExecV3 (Suc 0) envRevertBlocks cfg0 argsBlock2 True))))"
proof -
  from outcome_Some [OF runRevertBlocks] obtain s' where
    r: "ExecV3 (Suc 0) envRevertBlocks cfg0 argsBlock2 True = Some (s', None)" by blast
  let ?q = "\<lparr>calls = [], outputTxNum = 5, conflicts = 0, triggers = 0, processedBlockNum = 0,
             stopedAtBlockEnd = False, i_conflict = 0\<rparr>"
  let ?t = "mkTask 1 5 0 False"
  have h1: "Error ?t = None" by (simp add: mkTask_def)
  have h2: "Error (runTxTask envRevertBlocks cs ?t) \<noteq> None" for cs
    by (simp add: runTxTask_def envRevertBlocks_def envRevert_def envOK_def)
  have h3: "isConflict envRevertBlocks ?q ?t" by (simp add: isConflict_def envRevertBlocks_def envRevert_def envOK_def)
  have h4: "i_conflict ?q = 0" by simp
  note T = failed_task_is_not_applied [where E = envRevertBlocks and C = cfg0 and blockNum = 1
      and header = header0 and s = execStart and t = ?t and q = ?q and bp = False and cr = True
      and fs = False and cs = "[]" and heap = heap56 and n = 5 and fuel = "Suc 0"
      and A = argsBlock2 and p = True]
  from T h1 h2 h3
  have a: "outputTxNum (flowState (seqTask envRevertBlocks cfg0 1 header0 execStart ?t)) = outputTxNum execStart \<and>
     filter isApplyCall (newCalls execStart (flowState (seqTask envRevertBlocks cfg0 1 header0 execStart ?t))) = [] \<and>
     newCalls ?q (flowState (loopBody envRevertBlocks False True False ?q ?t)) = [RunTxTask ?t]"
    by (simp add: list_all_iff filter_empty_conv)
  from T have "\<forall>heap' r err. processResultQueue envRevertBlocks [] heap56 5 False True False = (heap', r, err)
          \<longrightarrow> noneFailed (calls r)"
    by simp
  then have "noneFailed (calls (fst (snd (processResultQueue envRevertBlocks [] heap56 5 False True False))))"
    by (cases "processResultQueue envRevertBlocks [] heap56 5 False True False") simp
  moreover from T r have "noneFailed (fst (the (outcome (ExecV3 (Suc 0) envRevertBlocks cfg0 argsBlock2 True))))"
    by (simp add: outcome_calls)
  ultimately show ?thesis using a by simp
qed

section \<open>The tasks of the driver\<close>

lemma newCalls_append [simp]: "calls s' = calls s @ new \<Longrightarrow> newCalls s s' = new"
  by (simp add: newCalls_def)

text \<open>
  Claim C6, as stated, at a concrete input: block 2 has one transaction, and the run of
  its task reports an error. The driver processes the block and returns no error, but the
  tasks of the block are those of the indices \<open>-1\<close> and \<open>0\<close> only: there is no task of the
  index \<open>len(txs) = 1\<close>, and none of the tasks is final.
\<close>

theorem C6_counterexample:
  "length (Transactions (oneTxBlock 2)) = 1 \<and>
   outcome (ExecV3 (Suc 0) envTxFails cfg0 argsBlock2 True) =
     Some ([BeginRw, TxNumsMax 2, TxNumsMax 1, BlockWithSenders 2,
            RunTxTask (newTxTask 2 (oneTxBlock 2) 1 (-1)),
            ApplyState4 (newTxTask 2 (oneTxBlock 2) 1 (-1)),
            ApplyLogsAndTraces (newTxTask 2 (oneTxBlock 2) 1 (-1)),
            CommitTxNum (newTxTask 2 (oneTxBlock 2) 1 (-1)),
            RunTxTask ((newTxTask 2 (oneTxBlock 2) 2 0)\<lparr>Tx := Some tx0, Sender := Some [5]\<rparr>),
            UnwindTo 1 [1], AggFlush, StageUpdate 2, TxCommit], None) \<and>
   map TxIndex (ranTasks (fst (the (outcome (ExecV3 (Suc 0) envTxFails cfg0 argsBlock2 True)))))
     = [-1, 0] \<and>
   map Final (ranTasks (fst (the (outcome (ExecV3 (Suc 0) envTxFails cfg0 argsBlock2 True)))))
     = [False, False] \<and>
   map TxIndex (tasksRun execStart
      (taskLoop envTxFails cfg0 False 2 (oneTxBlock 2)
         [-1..int (length (Transactions (oneTxBlock 2)))] execStart)) = [-1, 0]"
proof -
  have 1: "length (Transactions (oneTxBlock 2)) = 1" by (simp add: oneTxBlock_def)
  have 3: "map TxIndex (ranTasks (fst (the (outcome (ExecV3 (Suc 0) envTxFails cfg0 argsBlock2 True)))))
     = [-1, 0]"
    "map Final (ranTasks (fst (the (outcome (ExecV3 (Suc 0) envTxFails cfg0 argsBlock2 True)))))
     = [False, False]"
    by (simp_all add: runTxFails ranTasks_def newTxTask_def oneTxBlock_def)
  have 4: "map TxIndex (tasksRun execStart
      (taskLoop envTxFails cfg0 False 2 (oneTxBlock 2)
         [-1..int (length (Transactions (oneTxBlock 2)))] execStart)) = [-1, 0]"
    by (simp add: eval_exec tasksRun_def newCalls_def ranTasks_def envTxFails_def envOK_def cfg0_def
          oneTxBlock_def headerOf_def execStart_def tx0_def)
  from 1 3 4 show ?thesis by (simp only: runTxFails simp_thms)
qed

text \<open>
  Claim C6, amended: the tasks the driver runs. Over the whole of a run of \<^verbatim>\<open>ExecV3\<close> they
  are in block-then-index order and their transaction numbers are dense, from the number
  the driver starts with; the first one is the pre-block task of the first block. Within a
  block the \<open>k\<close>-th task has index \<open>k - 1\<close> (so the first has \<open>-1\<close>), the number of the
  block and the \<open>k\<close>-th next transaction number, and it is final exactly when its index is
  \<open>len(txs)\<close>; a block whose loop of tasks runs to its end has all \<open>len(txs) + 2\<close> of them,
  and a block whose loop is left before has the first ones of them.
\<close>

theorem driver_tasks_dense_in_order:
  "(\<forall>s' err. ExecV3 fuel E C A p = Some (s', err) \<longrightarrow>
      inOrder (ranTasks (calls s')) \<and>
      contiguousFrom (inputTxNum (flowState (startExec E A False))) (map TxNum (ranTasks (calls s'))) \<and>
      (ranTasks (calls s') = [] \<or>
       TxIndex (hd (ranTasks (calls s'))) = -1 \<and> BlockNum (hd (ranTasks (calls s'))) = firstBlock A)) \<and>
   (\<forall>k < length (tasksRun s (taskLoop E C False bn b [-1..int (length (Transactions b))] s)).
      TxIndex (tasksRun s (taskLoop E C False bn b [-1..int (length (Transactions b))] s) ! k)
        = int k - 1 \<and>
      TxNum (tasksRun s (taskLoop E C False bn b [-1..int (length (Transactions b))] s) ! k)
        = inputTxNum s + of_nat k \<and>
      BlockNum (tasksRun s (taskLoop E C False bn b [-1..int (length (Transactions b))] s) ! k)
        = bn \<and>
      Final (tasksRun s (taskLoop E C False bn b [-1..int (length (Transactions b))] s) ! k)
        = (k = length (Transactions b) + 1)) \<and>
   (\<forall>s'. taskLoop E C False bn b [-1..int (length (Transactions b))] s = Continue s' \<longrightarrow>
      length (tasksRun s (Continue s')) = length (Transactions b) + 2 \<and>
      inputTxNum s' = inputTxNum s + of_nat (length (Transactions b) + 2))"
proof (intro conjI allI impI)
  fix s' err assume "ExecV3 fuel E C A p = Some (s', err)"
  then have "execBody fuel E C A False = Some (s', err)" by (simp add: ExecV3_def)
  from execBody_calls [OF this] obtain pre mid post where
    c: "calls s' = pre @ mid @ post" "quiet pre" "quiet post" and
    r: "roundTasks (firstBlock A) (inputTxNum (flowState (startExec E A False))) (ranTasks mid)"
    by blast
  from c have "ranTasks (calls s') = ranTasks mid" by (simp add: quiet_def)
  with r show "inOrder (ranTasks (calls s'))"
    "contiguousFrom (inputTxNum (flowState (startExec E A False))) (map TxNum (ranTasks (calls s')))"
    "ranTasks (calls s') = [] \<or>
       TxIndex (hd (ranTasks (calls s'))) = -1 \<and> BlockNum (hd (ranTasks (calls s'))) = firstBlock A"
    by (simp_all add: roundTasks_def)
next
  let ?idxs = "[-1..int (length (Transactions b))]"
  let ?r = "taskLoop E C False bn b ?idxs s"
  from taskLoop_emitted [of E C bn b ?idxs s] obtain new where
    n: "calls (flowState ?r) = calls s @ new" and
    e: "emittedFrom bn b (inputTxNum s) ?idxs (ranTasks new)" and
    k: "\<forall>s'. ?r = Continue s' \<longrightarrow>
        length (ranTasks new) = length ?idxs \<and> inputTxNum s' = inputTxNum s + of_nat (length ?idxs)"
    by blast
  from n have ts: "tasksRun s ?r = ranTasks new" by (simp add: tasksRun_def)
  {
    fix k assume "k < length (tasksRun s ?r)"
    with ts e have kk: "k < length (ranTasks new)" "k < length (Transactions b) + 2"
      by (auto simp: emittedFrom_def)
    with e have "TxIndex (ranTasks new ! k) = int k - 1 \<and>
        TxNum (ranTasks new ! k) = inputTxNum s + of_nat k \<and> BlockNum (ranTasks new ! k) = bn \<and>
        Final (ranTasks new ! k) = (int k - 1 = int (length (Transactions b)))"
      by (simp add: emittedFrom_def upto_from_m1_nth)
    then show "TxIndex (tasksRun s ?r ! k) = int k - 1" "TxNum (tasksRun s ?r ! k) = inputTxNum s + of_nat k"
      "BlockNum (tasksRun s ?r ! k) = bn" "Final (tasksRun s ?r ! k) = (k = length (Transactions b) + 1)"
      unfolding ts by auto
  }
  {
    fix s' assume c: "?r = Continue s'"
    with k have "length (ranTasks new) = length ?idxs" "inputTxNum s' = inputTxNum s + of_nat (length ?idxs)"
      by simp_all
    then show "length (tasksRun s (Continue s')) = length (Transactions b) + 2"
      "inputTxNum s' = inputTxNum s + of_nat (length (Transactions b) + 2)"
      using ts c by simp_all
  }
qed

lemma tasksEmptyBlock:
  "taskLoop envWrongRoot cfg0 False 2 (emptyBlock 2 0) [-1..int (length (Transactions (emptyBlock 2 0)))]
     execStart =
   Continue (execStart\<lparr>calls := calls execStart @
       [RunTxTask (newTxTask 2 (emptyBlock 2 0) 1 (-1)),
        ApplyState4 (newTxTask 2 (emptyBlock 2 0) 1 (-1)),
        ApplyLogsAndTraces (newTxTask 2 (emptyBlock 2 0) 1 (-1)),
        CommitTxNum (newTxTask 2 (emptyBlock 2 0) 1 (-1)),
        RunTxTask (newTxTask 2 (emptyBlock 2 0) 2 0),
        ApplyState4 (newTxTask 2 (emptyBlock 2 0) 2 0),
        ApplyLogsAndTraces (newTxTask 2 (emptyBlock 2 0) 2 0),
        CommitTxNum (newTxTask 2 (emptyBlock 2 0) 2 0)],
     outputTxNum := 3, stageProgress := 2, inputTxNum := 3\<rparr>)"
  by (simp add: eval_exec envWrongRoot_def envOK_def cfg0_def emptyBlock_def headerOf_def execStart_def)

text \<open>
  The amended claim C6 at concrete inputs: a block without transactions gives two tasks,
  and the run of the genesis block gives tasks in order, numbered from 0.
\<close>

theorem driver_tasks_dense_in_order_witness:
  "length (tasksRun execStart (taskLoop envWrongRoot cfg0 False 2 (emptyBlock 2 0)
      [-1..int (length (Transactions (emptyBlock 2 0)))] execStart)) = 2 \<and>
   inOrder (ranTasks (fst (the (outcome (ExecV3 (Suc 0) envWrongRoot cfg0 argsGenesis True))))) \<and>
   contiguousFrom 0 (map TxNum (ranTasks (fst (the (outcome (ExecV3 (Suc 0) envWrongRoot cfg0 argsGenesis True))))))"
proof -
  from outcome_Some [OF runWrongRoot] obtain s' where
    r: "ExecV3 (Suc 0) envWrongRoot cfg0 argsGenesis True = Some (s', None)" by blast
  have st: "inputTxNum (flowState (startExec envWrongRoot argsGenesis False)) = 0"
    by (simp add: eval_exec envWrongRoot_def envOK_def argsGenesis_def)
  from driver_tasks_dense_in_order [where fuel = "Suc 0" and E = envWrongRoot and C = cfg0
      and A = argsGenesis and p = True and s = execStart and bn = 2 and b = "emptyBlock 2 0"]
    r tasksEmptyBlock st
  show ?thesis by (simp add: outcome_calls emptyBlock_def)
qed

section \<open>The check of the root\<close>





section \<open>The check of the gas\<close>

text \<open>The last task of a block, and the outcome of the code after the loop.\<close>

lemma taskLoop_last:
  "taskLoop E C False bn b [-1..int (length (Transactions b))] s0 =
     andThen (taskLoop E C False bn b [-1..int (length (Transactions b)) - 1] s0)
       (\<lambda>s1. case seqTask E C bn (HeaderNoCopy b) s1
                     (newTxTask bn b (inputTxNum s1) (int (length (Transactions b)))) of
                Continue s' \<Rightarrow> Continue (s'\<lparr>stageProgress := bn, inputTxNum := inputTxNum s' + 1\<rparr>)
              | Break s' \<Rightarrow> Break s'
              | Return s' e \<Rightarrow> Return s' e)"
proof -
  have one: "taskLoop E C False bn b [int (length (Transactions b))] s1 =
      (case seqTask E C bn (HeaderNoCopy b) s1
                     (newTxTask bn b (inputTxNum s1) (int (length (Transactions b)))) of
                Continue s' \<Rightarrow> Continue (s'\<lparr>stageProgress := bn, inputTxNum := inputTxNum s' + 1\<rparr>)
              | Break s' \<Rightarrow> Break s'
              | Return s' e \<Rightarrow> Return s' e)" for s1
    by (simp add: attachTx_def split: flow.splits)
  then have fn: "taskLoop E C False bn b [int (length (Transactions b))] =
      (\<lambda>s1. case seqTask E C bn (HeaderNoCopy b) s1
                     (newTxTask bn b (inputTxNum s1) (int (length (Transactions b)))) of
                Continue s' \<Rightarrow> Continue (s'\<lparr>stageProgress := bn, inputTxNum := inputTxNum s' + 1\<rparr>)
              | Break s' \<Rightarrow> Break s'
              | Return s' e \<Rightarrow> Return s' e)"
    by (intro ext)
  show ?thesis
    by (subst upto_from_m1_snoc) (simp only: taskLoop_append fn)
qed

lemma afterLoop_finish:
  "finish (afterLoop E C A False s) =
     (case agg_Flush E (calls s) of
        Some e \<Rightarrow> (s\<lparr>calls := calls s @ [AggFlush]\<rparr>, Some e)
      | None \<Rightarrow>
          (case execStage_Update E (calls s @ [AggFlush]) (stageProgress s) of
             Some e \<Rightarrow> (s\<lparr>calls := calls s @ [AggFlush, StageUpdate (stageProgress s)]\<rparr>, Some e)
           | None \<Rightarrow>
               if applyTx_given A
               then (s\<lparr>calls := calls s @ [AggFlush, StageUpdate (stageProgress s)]\<rparr>, None)
               else (s\<lparr>calls := calls s @ [AggFlush, StageUpdate (stageProgress s), TxCommit]\<rparr>,
                     tx_Commit E (calls s @ [AggFlush, StageUpdate (stageProgress s)]))))"
  by (simp add: afterLoop_def finish_def andThen_def fallible_def record_call_def Let_def
        split: option.splits)

text \<open>
  Claim C5, as stated, at a concrete input: block 2 has no transaction and its header
  says 5 units of gas, the tasks use none, and \<^verbatim>\<open>badBlockHalt\<close> is off. The final task
  finds the mismatch, \<^verbatim>\<open>UnwindTo\<close> is called with block 1, the loop is left, and the
  function flushes, commits and returns no error.
\<close>

theorem C5_counterexample:
  "GasUsed (HeaderNoCopy (emptyBlock 2 5)) = 5 \<and>
   appliedGas [RunTxTask (newTxTask 2 (emptyBlock 2 5) 1 (-1)),
               ApplyState4 (newTxTask 2 (emptyBlock 2 5) 1 (-1)),
               ApplyLogsAndTraces (newTxTask 2 (emptyBlock 2 5) 1 (-1)),
               CommitTxNum (newTxTask 2 (emptyBlock 2 5) 1 (-1)),
               RunTxTask (newTxTask 2 (emptyBlock 2 5) 2 0)] = 0 \<and>
   \<not> badBlockHalt cfg0 \<and>
   outcome (ExecV3 (Suc 0) envGasMismatch cfg0 argsBlock2 True) =
     Some ([BeginRw, TxNumsMax 2, TxNumsMax 1, BlockWithSenders 2,
            RunTxTask (newTxTask 2 (emptyBlock 2 5) 1 (-1)),
            ApplyState4 (newTxTask 2 (emptyBlock 2 5) 1 (-1)),
            ApplyLogsAndTraces (newTxTask 2 (emptyBlock 2 5) 1 (-1)),
            CommitTxNum (newTxTask 2 (emptyBlock 2 5) 1 (-1)),
            RunTxTask (newTxTask 2 (emptyBlock 2 5) 2 0),
            UnwindTo 1 [1], AggFlush, StageUpdate 2, TxCommit], None)"
proof -
  have "GasUsed (HeaderNoCopy (emptyBlock 2 5)) = 5" by (simp add: emptyBlock_def headerOf_def)
  moreover have "appliedGas [RunTxTask (newTxTask 2 (emptyBlock 2 5) 1 (-1)),
               ApplyState4 (newTxTask 2 (emptyBlock 2 5) 1 (-1)),
               ApplyLogsAndTraces (newTxTask 2 (emptyBlock 2 5) 1 (-1)),
               CommitTxNum (newTxTask 2 (emptyBlock 2 5) 1 (-1)),
               RunTxTask (newTxTask 2 (emptyBlock 2 5) 2 0)] = 0"
    by (simp add: appliedGas_def applyStateTasks_def newTxTask_def)
  moreover have "\<not> badBlockHalt cfg0" by (simp add: cfg0_def)
  ultimately show ?thesis by (simp only: runGasMismatch simp_thms)
qed

text \<open>
  Claim C5, amended. On the sequential path the gas of the tasks of a block is added up,
  from zero, and compared with the gas of the header when the final task has run; where
  the tasks of a block other than the genesis block all go through, the gas of the tasks
  applied is the gas of the header, and the sum is zero again after the block. On a
  mismatch in a block other than the genesis block the task is not applied and the bad
  header is reported if there is a header downloader; then with \<^verbatim>\<open>badBlockHalt\<close> the
  function returns the error of the check, and without it \<^verbatim>\<open>UnwindTo\<close> is called with the
  block before and the loop over the blocks is left: the break (or the error) of the final
  task is that of the loop over the tasks, of the round and of the loop over the blocks,
  and after a break \<^verbatim>\<open>ExecV3\<close> returns what the code after the loop gives, which is no
  error unless the flush, the record of the progress or the commit fails. The final task
  of the genesis block passes whatever the sum, a final task whose sum matches passes,
  both leaving the sum at zero, and a task that is not final adds its gas.
\<close>

theorem gas_used_check:
  "(\<forall>s'. taskLoop E C False bn b [-1..int (length (Transactions b))] (s\<lparr>gasUsed := 0\<rparr>) = Continue s'
      \<longrightarrow> gasUsed s' = 0 \<and> (bn > 0 \<longrightarrow> appliedGas (newCalls s s') = GasUsed (HeaderNoCopy b))) \<and>
   (Error t = None \<and> Error (runTxTask E (calls s) t) = None \<and> Final t \<and> BlockNum t > 0 \<and>
    gasUsed s + UsedGas (runTxTask E (calls s) t) \<noteq> GasUsed (TaskHeader t) \<longrightarrow>
      seqTask E C blockNum header s t =
        (if badBlockHalt C
         then Return (s\<lparr>calls := calls s @ [RunTxTask t]
                 @ (if cfg_hd C then [ReportBadHeaderPoS (Hash header) (ParentHash header)] else [])\<rparr>)
                (Errorf ''gas used by execution'')
         else Break (s\<lparr>calls := calls s @ [RunTxTask t]
                 @ (if cfg_hd C then [ReportBadHeaderPoS (Hash header) (ParentHash header)] else [])
                 @ [UnwindTo (blockNum - 1) (Hash header)]\<rparr>))) \<and>
   (Error t = None \<and> Final t \<and> BlockNum t = 0 \<longrightarrow> gasCheck g t = Inr 0) \<and>
   (Error t = None \<and> Final t \<and> g + UsedGas t = GasUsed (TaskHeader t) \<longrightarrow> gasCheck g t = Inr 0) \<and>
   (Error t = None \<and> \<not> Final t \<longrightarrow> gasCheck g t = Inr (g + UsedGas t)) \<and>
   (taskLoop E C False bn b [-1..int (length (Transactions b)) - 1] s0 = Continue s1 \<longrightarrow>
      (\<forall>s2. seqTask E C bn (HeaderNoCopy b) s1
                (newTxTask bn b (inputTxNum s1) (int (length (Transactions b)))) = Break s2 \<longrightarrow>
         taskLoop E C False bn b [-1..int (length (Transactions b))] s0 = Break s2) \<and>
      (\<forall>s2 e. seqTask E C bn (HeaderNoCopy b) s1
                (newTxTask bn b (inputTxNum s1) (int (length (Transactions b)))) = Return s2 e \<longrightarrow>
         taskLoop E C False bn b [-1..int (length (Transactions b))] s0 = Return s2 e)) \<and>
   (blockReader_BlockByNumber E (calls q) bn = Inr (Some b) \<and>
    beforeTasks E C A False block (Number (HeaderNoCopy b)) (record_call (BlockWithSenders bn) q) =
      Continue q1 \<longrightarrow>
      (\<forall>s2. taskLoop E C False bn b [-1..int (length (Transactions b))] (q1\<lparr>gasUsed := 0\<rparr>) = Break s2
         \<longrightarrow> blockRound E C A False block bn q = Break s2) \<and>
      (\<forall>s2 e. taskLoop E C False bn b [-1..int (length (Transactions b))] (q1\<lparr>gasUsed := 0\<rparr>) =
                 Return s2 e
         \<longrightarrow> blockRound E C A False block bn q = Return s2 e)) \<and>
   (bn \<le> maxBlockNum A \<longrightarrow>
      (\<forall>s2. blockRound E C A False block bn q = Break s2 \<longrightarrow>
         blockLoop (Suc fuel) E C A False block bn q = Some (Break s2)) \<and>
      (\<forall>s2 e. blockRound E C A False block bn q = Return s2 e \<longrightarrow>
         blockLoop (Suc fuel) E C A False block bn q = Some (Return s2 e))) \<and>
   (startExec E A False = Continue q0 \<longrightarrow>
      (\<forall>s2. blockLoop n E C A False (firstBlock A) (firstBlock A) q0 = Some (Break s2) \<longrightarrow>
         ExecV3 n E C A p = Some (finish (afterLoop E C A False s2))) \<and>
      (\<forall>s2 e. blockLoop n E C A False (firstBlock A) (firstBlock A) q0 = Some (Return s2 e) \<longrightarrow>
         ExecV3 n E C A p = Some (s2, Some e))) \<and>
   finish (afterLoop E C A False s3) =
     (case agg_Flush E (calls s3) of
        Some e \<Rightarrow> (s3\<lparr>calls := calls s3 @ [AggFlush]\<rparr>, Some e)
      | None \<Rightarrow>
          (case execStage_Update E (calls s3 @ [AggFlush]) (stageProgress s3) of
             Some e \<Rightarrow> (s3\<lparr>calls := calls s3 @ [AggFlush, StageUpdate (stageProgress s3)]\<rparr>, Some e)
           | None \<Rightarrow>
               if applyTx_given A
               then (s3\<lparr>calls := calls s3 @ [AggFlush, StageUpdate (stageProgress s3)]\<rparr>, None)
               else (s3\<lparr>calls := calls s3 @ [AggFlush, StageUpdate (stageProgress s3), TxCommit]\<rparr>,
                     tx_Commit E (calls s3 @ [AggFlush, StageUpdate (stageProgress s3)]))))"
proof (intro conjI impI allI)
  fix s' assume a: "taskLoop E C False bn b [-1..int (length (Transactions b))] (s\<lparr>gasUsed := 0\<rparr>) = Continue s'"
  from taskLoop_block_gas [OF a] obtain new where
    n: "calls s' = calls s @ new" "gasUsed s' = 0"
       "bn > 0 \<longrightarrow> appliedGas new = GasUsed (HeaderNoCopy b)"
    by auto
  from n show "gasUsed s' = 0" by simp
  assume "0 < bn"
  with n show "appliedGas (newCalls s s') = GasUsed (HeaderNoCopy b)" by (simp add: newCalls_def)
next
  assume a: "Error t = None \<and> Error (runTxTask E (calls s) t) = None \<and> Final t \<and> BlockNum t > 0 \<and>
    gasUsed s + UsedGas (runTxTask E (calls s) t) \<noteq> GasUsed (TaskHeader t)"
  then have g: "gasCheck (gasUsed s) (runTxTask E (calls s) t) = Inl (Errorf ''gas used by execution'')"
    by (simp add: gasCheck_def)
  from a have e: "Error t = None" by simp
  show "seqTask E C blockNum header s t =
        (if badBlockHalt C
         then Return (s\<lparr>calls := calls s @ [RunTxTask t]
                 @ (if cfg_hd C then [ReportBadHeaderPoS (Hash header) (ParentHash header)] else [])\<rparr>)
                (Errorf ''gas used by execution'')
         else Break (s\<lparr>calls := calls s @ [RunTxTask t]
                 @ (if cfg_hd C then [ReportBadHeaderPoS (Hash header) (ParentHash header)] else [])
                 @ [UnwindTo (blockNum - 1) (Hash header)]\<rparr>))"
    unfolding seqTask_failed [OF e g] by (simp add: Let_def record_call_def)
next
  assume "Error t = None \<and> Final t \<and> BlockNum t = 0"
  then show "gasCheck g t = Inr 0" by (simp add: gasCheck_def)
next
  assume "Error t = None \<and> Final t \<and> g + UsedGas t = GasUsed (TaskHeader t)"
  then show "gasCheck g t = Inr 0" by (simp add: gasCheck_def)
next
  assume "Error t = None \<and> \<not> Final t"
  then show "gasCheck g t = Inr (g + UsedGas t)" by (simp add: gasCheck_def)
next
  fix s2
  assume "taskLoop E C False bn b [-1..int (length (Transactions b)) - 1] s0 = Continue s1"
    and "seqTask E C bn (HeaderNoCopy b) s1
           (newTxTask bn b (inputTxNum s1) (int (length (Transactions b)))) = Break s2"
  then show "taskLoop E C False bn b [-1..int (length (Transactions b))] s0 = Break s2"
    by (simp add: taskLoop_last)
next
  fix s2 e
  assume "taskLoop E C False bn b [-1..int (length (Transactions b)) - 1] s0 = Continue s1"
    and "seqTask E C bn (HeaderNoCopy b) s1
           (newTxTask bn b (inputTxNum s1) (int (length (Transactions b)))) = Return s2 e"
  then show "taskLoop E C False bn b [-1..int (length (Transactions b))] s0 = Return s2 e"
    by (simp add: taskLoop_last)
next
  fix s2
  assume "blockReader_BlockByNumber E (calls q) bn = Inr (Some b) \<and>
    beforeTasks E C A False block (Number (HeaderNoCopy b)) (record_call (BlockWithSenders bn) q) =
      Continue q1"
    and "taskLoop E C False bn b [-1..int (length (Transactions b))] (q1\<lparr>gasUsed := 0\<rparr>) = Break s2"
  then show "blockRound E C A False block bn q = Break s2" by (simp add: blockRound_def)
next
  fix s2 e
  assume "blockReader_BlockByNumber E (calls q) bn = Inr (Some b) \<and>
    beforeTasks E C A False block (Number (HeaderNoCopy b)) (record_call (BlockWithSenders bn) q) =
      Continue q1"
    and "taskLoop E C False bn b [-1..int (length (Transactions b))] (q1\<lparr>gasUsed := 0\<rparr>) =
           Return s2 e"
  then show "blockRound E C A False block bn q = Return s2 e" by (simp add: blockRound_def)
next
  fix s2 assume "bn \<le> maxBlockNum A" and "blockRound E C A False block bn q = Break s2"
  then show "blockLoop (Suc fuel) E C A False block bn q = Some (Break s2)" by simp
next
  fix s2 e assume "bn \<le> maxBlockNum A" and "blockRound E C A False block bn q = Return s2 e"
  then show "blockLoop (Suc fuel) E C A False block bn q = Some (Return s2 e)" by simp
next
  fix s2
  assume "startExec E A False = Continue q0"
    and "blockLoop n E C A False (firstBlock A) (firstBlock A) q0 = Some (Break s2)"
  then show "ExecV3 n E C A p = Some (finish (afterLoop E C A False s2))"
    by (simp add: ExecV3_def execBody_def)
next
  fix s2 e
  assume "startExec E A False = Continue q0"
    and "blockLoop n E C A False (firstBlock A) (firstBlock A) q0 = Some (Return s2 e)"
  then show "ExecV3 n E C A p = Some (s2, Some e)"
    by (simp add: ExecV3_def execBody_def)
next
  show "finish (afterLoop E C A False s3) =
     (case agg_Flush E (calls s3) of
        Some e \<Rightarrow> (s3\<lparr>calls := calls s3 @ [AggFlush]\<rparr>, Some e)
      | None \<Rightarrow>
          (case execStage_Update E (calls s3 @ [AggFlush]) (stageProgress s3) of
             Some e \<Rightarrow> (s3\<lparr>calls := calls s3 @ [AggFlush, StageUpdate (stageProgress s3)]\<rparr>, Some e)
           | None \<Rightarrow>
               if applyTx_given A
               then (s3\<lparr>calls := calls s3 @ [AggFlush, StageUpdate (stageProgress s3)]\<rparr>, None)
               else (s3\<lparr>calls := calls s3 @ [AggFlush, StageUpdate (stageProgress s3), TxCommit]\<rparr>,
                     tx_Commit E (calls s3 @ [AggFlush, StageUpdate (stageProgress s3)]))))"
    by (rule afterLoop_finish)
qed

lemma tasksGasOk:
  "\<exists>s'. taskLoop envGasMismatch cfg0 False 2 (emptyBlock 2 0)
           [-1..int (length (Transactions (emptyBlock 2 0)))] (execStart\<lparr>gasUsed := 0\<rparr>) = Continue s'"
  by (simp add: eval_exec envGasMismatch_def envOK_def cfg0_def emptyBlock_def headerOf_def execStart_def)

lemma tasksBeforeFinal:
  "taskLoop envGasMismatch cfg0 False 2 (emptyBlock 2 5)
     [-1..int (length (Transactions (emptyBlock 2 5))) - 1]
     ((record_call (BlockWithSenders 2) execStart)\<lparr>gasUsed := 0\<rparr>) = Continue execBeforeFinal"
  by (simp add: eval_exec envGasMismatch_def envOK_def cfg0_def emptyBlock_def headerOf_def
        execStart_def execBeforeFinal_def)

lemma finalTaskBreaks:
  "seqTask envGasMismatch cfg0 2 (HeaderNoCopy (emptyBlock 2 5)) execBeforeFinal
     (newTxTask 2 (emptyBlock 2 5) (inputTxNum execBeforeFinal)
        (int (length (Transactions (emptyBlock 2 5))))) = Break execGasBreak"
  by (simp add: eval_exec envGasMismatch_def envOK_def cfg0_def emptyBlock_def headerOf_def
        execStart_def execBeforeFinal_def execGasBreak_def)

text \<open>
  The amended claim C5 at concrete inputs: a block whose gas matches, the final task of a
  block whose gas does not, the final task of the genesis block, a pre-block task, and
  the run of block 2 of \<open>envGasMismatch\<close> from the final task to the result of \<^verbatim>\<open>ExecV3\<close>.
\<close>

theorem gas_used_check_witness:
  "gasUsed (flowState (taskLoop envGasMismatch cfg0 False 2 (emptyBlock 2 0)
      [-1..int (length (Transactions (emptyBlock 2 0)))] (execStart\<lparr>gasUsed := 0\<rparr>))) = 0 \<and>
   appliedGas (newCalls execStart (flowState (taskLoop envGasMismatch cfg0 False 2 (emptyBlock 2 0)
      [-1..int (length (Transactions (emptyBlock 2 0)))] (execStart\<lparr>gasUsed := 0\<rparr>)))) = 0 \<and>
   seqTask envGasMismatch cfg0 2 (headerOf 2 5) execStart (newTxTask 2 (emptyBlock 2 5) 2 0) =
     Break (execStart\<lparr>calls := calls execStart @
        [RunTxTask (newTxTask 2 (emptyBlock 2 5) 2 0), UnwindTo 1 [1]]\<rparr>) \<and>
   gasCheck 3 (newTxTask 0 (emptyBlock 0 5) 2 0) = Inr 0 \<and>
   gasCheck 3 (newTxTask 2 (emptyBlock 2 5) 1 (-1)) = Inr 3 \<and>
   taskLoop envGasMismatch cfg0 False 2 (emptyBlock 2 5)
     [-1..int (length (Transactions (emptyBlock 2 5)))]
     ((record_call (BlockWithSenders 2) execStart)\<lparr>gasUsed := 0\<rparr>) = Break execGasBreak \<and>
   blockRound envGasMismatch cfg0 argsBlock2 False 2 2 execStart = Break execGasBreak \<and>
   blockLoop (Suc 0) envGasMismatch cfg0 argsBlock2 False 2 2 execStart = Some (Break execGasBreak) \<and>
   ExecV3 (Suc 0) envGasMismatch cfg0 argsBlock2 True =
     Some (execGasBreak\<lparr>calls := calls execGasBreak @ [AggFlush, StageUpdate 2, TxCommit]\<rparr>, None)"
proof -
  let ?t = "newTxTask 2 (emptyBlock 2 5) 2 0"
  from tasksGasOk obtain s' where
    c: "taskLoop envGasMismatch cfg0 False 2 (emptyBlock 2 0)
           [-1..int (length (Transactions (emptyBlock 2 0)))] (execStart\<lparr>gasUsed := 0\<rparr>) = Continue s'" ..
  have h: "Error ?t = None" "Error (runTxTask envGasMismatch cs ?t) = None" "Final ?t" "BlockNum ?t = 2"
    "UsedGas (runTxTask envGasMismatch cs ?t) = 0" "GasUsed (TaskHeader ?t) = 5" "gasUsed execStart = 0"
    "\<not> badBlockHalt cfg0" "\<not> cfg_hd cfg0" "Hash (headerOf 2 5) = [1]"
    "GasUsed (HeaderNoCopy (emptyBlock 2 0)) = 0" for cs
    by (simp_all add: newTxTask_def runTxTask_def envGasMismatch_def envOK_def emptyBlock_def
          headerOf_def execStart_def cfg0_def)
  note T0 = gas_used_check [where E = envGasMismatch and C = cfg0 and bn = 2 and b = "emptyBlock 2 0"
      and s = execStart and t = ?t and blockNum = 2 and header = "headerOf 2 5"]
  from T0 [THEN conjunct1] T0 [THEN conjunct2, THEN conjunct1] c h
  have 1: "gasUsed (flowState (taskLoop envGasMismatch cfg0 False 2 (emptyBlock 2 0)
      [-1..int (length (Transactions (emptyBlock 2 0)))] (execStart\<lparr>gasUsed := 0\<rparr>))) = 0 \<and>
   appliedGas (newCalls execStart (flowState (taskLoop envGasMismatch cfg0 False 2 (emptyBlock 2 0)
      [-1..int (length (Transactions (emptyBlock 2 0)))] (execStart\<lparr>gasUsed := 0\<rparr>)))) = 0 \<and>
   seqTask envGasMismatch cfg0 2 (headerOf 2 5) execStart ?t =
     Break (execStart\<lparr>calls := calls execStart @ [RunTxTask ?t, UnwindTo 1 [1]]\<rparr>)"
    by simp
  from gas_used_check [where t = "newTxTask 0 (emptyBlock 0 5) 2 0" and g = 3,
      THEN conjunct2, THEN conjunct2, THEN conjunct1]
  have 2: "gasCheck 3 (newTxTask 0 (emptyBlock 0 5) 2 0) = Inr 0"
    by (simp add: newTxTask_def emptyBlock_def)
  from gas_used_check [where t = "newTxTask 2 (emptyBlock 2 5) 1 (-1)" and g = 3,
      THEN conjunct2, THEN conjunct2, THEN conjunct2, THEN conjunct2, THEN conjunct1]
  have 3: "gasCheck 3 (newTxTask 2 (emptyBlock 2 5) 1 (-1)) = Inr 3"
    by (simp add: newTxTask_def emptyBlock_def)
  note T = gas_used_check [where E = envGasMismatch and C = cfg0 and A = argsBlock2 and bn = 2
      and b = "emptyBlock 2 5" and block = 2 and q = execStart and fuel = 0 and n = "Suc 0"
      and ?q0.0 = execStart and p = True and ?s3.0 = execGasBreak
      and ?q1.0 = "record_call (BlockWithSenders 2) execStart"
      and ?s0.0 = "(record_call (BlockWithSenders 2) execStart)\<lparr>gasUsed := 0\<rparr>"
      and ?s1.0 = execBeforeFinal]
  note T6 = T [THEN conjunct2, THEN conjunct2, THEN conjunct2, THEN conjunct2, THEN conjunct2,
      THEN conjunct1]
  note T7 = T [THEN conjunct2, THEN conjunct2, THEN conjunct2, THEN conjunct2, THEN conjunct2,
      THEN conjunct2, THEN conjunct1]
  note T8 = T [THEN conjunct2, THEN conjunct2, THEN conjunct2, THEN conjunct2, THEN conjunct2,
      THEN conjunct2, THEN conjunct2, THEN conjunct1]
  note T9 = T [THEN conjunct2, THEN conjunct2, THEN conjunct2, THEN conjunct2, THEN conjunct2,
      THEN conjunct2, THEN conjunct2, THEN conjunct2, THEN conjunct1]
  note T10 = T [THEN conjunct2, THEN conjunct2, THEN conjunct2, THEN conjunct2, THEN conjunct2,
      THEN conjunct2, THEN conjunct2, THEN conjunct2, THEN conjunct2]
  from T6 tasksBeforeFinal finalTaskBreaks
  have 6: "taskLoop envGasMismatch cfg0 False 2 (emptyBlock 2 5)
     [-1..int (length (Transactions (emptyBlock 2 5)))]
     ((record_call (BlockWithSenders 2) execStart)\<lparr>gasUsed := 0\<rparr>) = Break execGasBreak"
    by blast
  have b7: "blockReader_BlockByNumber envGasMismatch cs 2 = Inr (Some (emptyBlock 2 5))"
    "beforeTasks envGasMismatch cfg0 argsBlock2 False 2 (Number (HeaderNoCopy (emptyBlock 2 5)))
       (record_call (BlockWithSenders 2) execStart) = Continue (record_call (BlockWithSenders 2) execStart)"
    for cs
    by (simp_all add: envGasMismatch_def envOK_def beforeTasks_def argsBlock2_def)
  from T7 b7 6 have 7: "blockRound envGasMismatch cfg0 argsBlock2 False 2 2 execStart = Break execGasBreak"
    by blast
  have "(2::u64) \<le> maxBlockNum argsBlock2" by (simp add: argsBlock2_def)
  with T8 7 have 8: "blockLoop (Suc 0) envGasMismatch cfg0 argsBlock2 False 2 2 execStart
      = Some (Break execGasBreak)"
    by blast
  have st: "startExec envGasMismatch argsBlock2 False = Continue execStart" "firstBlock argsBlock2 = 2"
    by (simp_all add: eval_exec envGasMismatch_def envOK_def argsBlock2_def execStart_def)
  from T9 st 8 have 9: "ExecV3 (Suc 0) envGasMismatch cfg0 argsBlock2 True =
      Some (finish (afterLoop envGasMismatch cfg0 argsBlock2 False execGasBreak))"
    by simp
  have a: "agg_Flush envGasMismatch cs = None" "execStage_Update envGasMismatch cs k = None"
    "tx_Commit envGasMismatch cs = None" "\<not> applyTx_given argsBlock2" "stageProgress execGasBreak = 2"
    for cs k
    by (simp_all add: envGasMismatch_def envOK_def argsBlock2_def execGasBreak_def execBeforeFinal_def)
  from T10 a have 10: "finish (afterLoop envGasMismatch cfg0 argsBlock2 False execGasBreak) =
      (execGasBreak\<lparr>calls := calls execGasBreak @ [AggFlush, StageUpdate 2, TxCommit]\<rparr>, None)"
    by simp
  from 1 2 3 6 7 8 9 10 show ?thesis by (simp only: simp_thms)
qed

section \<open>Commits at the end of a block\<close>






section \<open>Reconstitution: the lookups of the block numbers\<close>

text \<open>What \<open>stepRange\<close> calls, and when it gives a range.\<close>

lemma stepRange_calls:
  "\<exists>new. calls (fst (stepRange E isLast as blockNum s)) = calls s @ new \<and> list_all isLookup new \<and>
     mainStore (fst (stepRange E isLast as blockNum s)) = mainStore s"
  by (auto simp: stepRange_def Let_def record_call_def isLookup_def split: sum.splits prod.splits)

lemma stepRange_start:
  "notFound (TxNums_FindBlockNum E (calls s) (fst as)) \<Longrightarrow>
   \<exists>e. snd (stepRange E isLast as blockNum s) = Inl e"
  by (auto simp: stepRange_def notFound_def Let_def split: sum.splits prod.splits)

lemma stepRange_end:
  "\<forall>cs. notFound (TxNums_FindBlockNum E cs (snd as)) \<Longrightarrow>
   \<exists>e. snd (stepRange E isLast as blockNum s) = Inl e"
  by (auto simp: stepRange_def notFound_def Let_def split: sum.splits prod.splits)

lemma stepRange_found:
  "stepRange E isLast as blockNum s = (s1, Inr rng) \<Longrightarrow>
   \<not> notFound (TxNums_FindBlockNum E (calls s) (fst as)) \<and>
   \<not> notFound (TxNums_FindBlockNum E (butlast (calls s1)) (snd as))"
  by (auto simp: stepRange_def notFound_def Let_def record_call_def butlast_append
        split: sum.splits prod.splits if_splits)

text \<open>
  Claim C8: a lookup of \<^verbatim>\<open>FindBlockNum\<close> that fails is fatal. In \<^verbatim>\<open>reconstituteStep\<close>, when
  the lookup of the first transaction number of the step fails, or that of the last one
  fails whenever it is made, the function returns an error, the only calls made are
  lookups, and the main store is as before; the replay is reached only when both lookups
  found a block. A lookup that answers \<open>not found\<close> gives the error of the snapshot
  boundary: \<open>step startTxNum not found\<close> or \<open>step endTxNum not found\<close>. The error of a step
  ends the loop over the steps. At the top of \<^verbatim>\<open>ReconstituteState\<close>, the lookup of the end
  of the last step gives an error too when it fails.
\<close>

theorem lookup_failure_is_fatal:
  "(notFound (TxNums_FindBlockNum E (calls s) (fst as)) \<or>
    (\<forall>cs. notFound (TxNums_FindBlockNum E cs (snd as))) \<longrightarrow>
      isReturn (reconstituteStep E isLast as blockNum s) \<and>
      list_all isLookup (newCalls s (flowState (reconstituteStep E isLast as blockNum s))) \<and>
      mainStore (flowState (reconstituteStep E isLast as blockNum s)) = mainStore s) \<and>
   (\<forall>s1 rng. stepRange E isLast as blockNum s = (s1, Inr rng) \<longrightarrow>
      \<not> notFound (TxNums_FindBlockNum E (calls s) (fst as)) \<and>
      \<not> notFound (TxNums_FindBlockNum E (butlast (calls s1)) (snd as))) \<and>
   (\<forall>s1 e. stepRange E isLast as blockNum s = (s1, Inl e) \<longrightarrow>
      reconstituteStep E isLast as blockNum s = Return s1 e) \<and>
   (TxNums_FindBlockNum E (calls s) (fst as) = Inr (False, 0) \<and>
    TxNums_FindBlockNum E (calls s @ [FindBlockNum (fst as)]) (snd as) = Inr (ok, eb) \<longrightarrow>
      reconstituteStep E isLast as blockNum s =
        Return (s\<lparr>calls := calls s @ [FindBlockNum (fst as), FindBlockNum (snd as)]\<rparr>)
          (Errorf ''step startTxNum not found in snapshot blocks'')) \<and>
   (TxNums_FindBlockNum E (calls s) (fst as) = Inr (True, 0) \<and>
    TxNums_FindBlockNum E (calls s @ [FindBlockNum (fst as)]) (snd as) = Inr (False, eb) \<longrightarrow>
      reconstituteStep E isLast as blockNum s =
        Return (s\<lparr>calls := calls s @ [FindBlockNum (fst as), FindBlockNum (snd as)]\<rparr>)
          (Errorf ''step endTxNum not found in snapshot blocks'')) \<and>
   (\<forall>s1 e. reconstituteStep E (rest = []) as blockNum s = Return s1 e \<longrightarrow>
      stepsLoop E blockNum (as # rest) s = Return s1 e) \<and>
   (agg_MergeLoop E (calls s) = None \<and> agg_MakeSteps E (calls s @ [MergeLoop]) = Inr steps \<and>
    steps \<noteq> [] \<and>
    TxNums_FindBlockNum E (calls s @ [MergeLoop, MakeSteps]) (snd (last steps)) = Inr (False, b) \<longrightarrow>
      ReconstituteState E s =
        Return (s\<lparr>calls := calls s @
                   [MergeLoop, MakeSteps, FindBlockNum (snd (last steps)), TxNumsLast]\<rparr>)
          (Errorf ''blockNum for mininmaxTxNum not found'')) \<and>
   (agg_MergeLoop E (calls s) = None \<and> agg_MakeSteps E (calls s @ [MergeLoop]) = Inr steps \<and>
    steps \<noteq> [] \<and>
    TxNums_FindBlockNum E (calls s @ [MergeLoop, MakeSteps]) (snd (last steps)) = Inl err \<longrightarrow>
      ReconstituteState E s =
        Return (s\<lparr>calls := calls s @ [MergeLoop, MakeSteps, FindBlockNum (snd (last steps))]\<rparr>) err)"
proof (intro conjI impI allI)
  assume a: "notFound (TxNums_FindBlockNum E (calls s) (fst as)) \<or>
    (\<forall>cs. notFound (TxNums_FindBlockNum E cs (snd as)))"
  with stepRange_start [of E s as isLast blockNum] stepRange_end [of E as isLast blockNum s]
  obtain e where e: "snd (stepRange E isLast as blockNum s) = Inl e" by blast
  then have r: "reconstituteStep E isLast as blockNum s = Return (fst (stepRange E isLast as blockNum s)) e"
    by (cases "stepRange E isLast as blockNum s") (simp add: reconstituteStep_def)
  from stepRange_calls [of E isLast as blockNum s] obtain new where
    n: "calls (fst (stepRange E isLast as blockNum s)) = calls s @ new" "list_all isLookup new"
       "mainStore (fst (stepRange E isLast as blockNum s)) = mainStore s" by blast
  show "isReturn (reconstituteStep E isLast as blockNum s)" by (simp add: r isReturn_def)
  show "list_all isLookup (newCalls s (flowState (reconstituteStep E isLast as blockNum s)))"
    using n by (simp add: r newCalls_def)
  show "mainStore (flowState (reconstituteStep E isLast as blockNum s)) = mainStore s"
    using n by (simp add: r)
next
  fix s1 rng assume a: "stepRange E isLast as blockNum s = (s1, Inr rng)"
  from stepRange_found [OF a]
  show "\<not> notFound (TxNums_FindBlockNum E (calls s) (fst as))"
    "\<not> notFound (TxNums_FindBlockNum E (butlast (calls s1)) (snd as))" by simp_all
next
  fix s1 e assume "stepRange E isLast as blockNum s = (s1, Inl e)"
  then show "reconstituteStep E isLast as blockNum s = Return s1 e"
    by (simp add: reconstituteStep_def)
next
  assume "TxNums_FindBlockNum E (calls s) (fst as) = Inr (False, 0) \<and>
    TxNums_FindBlockNum E (calls s @ [FindBlockNum (fst as)]) (snd as) = Inr (ok, eb)"
  then show "reconstituteStep E isLast as blockNum s =
        Return (s\<lparr>calls := calls s @ [FindBlockNum (fst as), FindBlockNum (snd as)]\<rparr>)
          (Errorf ''step startTxNum not found in snapshot blocks'')"
    by (simp add: reconstituteStep_def stepRange_def record_call_def)
next
  assume "TxNums_FindBlockNum E (calls s) (fst as) = Inr (True, 0) \<and>
    TxNums_FindBlockNum E (calls s @ [FindBlockNum (fst as)]) (snd as) = Inr (False, eb)"
  then show "reconstituteStep E isLast as blockNum s =
        Return (s\<lparr>calls := calls s @ [FindBlockNum (fst as), FindBlockNum (snd as)]\<rparr>)
          (Errorf ''step endTxNum not found in snapshot blocks'')"
    by (simp add: reconstituteStep_def stepRange_def record_call_def)
next
  fix s1 e assume "reconstituteStep E (rest = []) as blockNum s = Return s1 e"
  then show "stepsLoop E blockNum (as # rest) s = Return s1 e" by simp
next
  assume "agg_MergeLoop E (calls s) = None \<and> agg_MakeSteps E (calls s @ [MergeLoop]) = Inr steps \<and>
    steps \<noteq> [] \<and>
    TxNums_FindBlockNum E (calls s @ [MergeLoop, MakeSteps]) (snd (last steps)) = Inr (False, b)"
  then show "ReconstituteState E s =
        Return (s\<lparr>calls := calls s @
                   [MergeLoop, MakeSteps, FindBlockNum (snd (last steps)), TxNumsLast]\<rparr>)
          (Errorf ''blockNum for mininmaxTxNum not found'')"
    by (simp add: ReconstituteState_def fallible_def record_call_def)
next
  assume "agg_MergeLoop E (calls s) = None \<and> agg_MakeSteps E (calls s @ [MergeLoop]) = Inr steps \<and>
    steps \<noteq> [] \<and>
    TxNums_FindBlockNum E (calls s @ [MergeLoop, MakeSteps]) (snd (last steps)) = Inl err"
  then show "ReconstituteState E s =
        Return (s\<lparr>calls := calls s @ [MergeLoop, MakeSteps, FindBlockNum (snd (last steps))]\<rparr>) err"
    by (simp add: ReconstituteState_def fallible_def record_call_def)
qed

text \<open>
  Claim C8 at a concrete input: no transaction number is found, for the step from 0 to 10.
\<close>

theorem lookup_failure_is_fatal_witness:
  "reconstituteStep envNotFound True (0, 10) 4 recon0 =
     Return (recon0\<lparr>calls := calls recon0 @ [FindBlockNum 0, FindBlockNum 10]\<rparr>)
       (Errorf ''step startTxNum not found in snapshot blocks'') \<and>
   list_all isLookup (newCalls recon0 (flowState (reconstituteStep envNotFound True (0, 10) 4 recon0))) \<and>
   ReconstituteState envNotFound recon0 =
     Return (recon0\<lparr>calls := calls recon0 @ [MergeLoop, MakeSteps, FindBlockNum 10, TxNumsLast]\<rparr>)
       (Errorf ''blockNum for mininmaxTxNum not found'')"
proof -
  have h: "TxNums_FindBlockNum envNotFound cs n = Inr (False, 0)" "agg_MergeLoop envNotFound cs = None"
    "agg_MakeSteps envNotFound cs = Inr [(0, 10)]" for cs n
    by (simp_all add: envNotFound_def envOK_def)
  have nf: "notFound (Inr (False, 0))" by (simp add: notFound_def)
  from lookup_failure_is_fatal [where E = envNotFound and s = recon0 and as = "(0, 10)"
      and isLast = True and blockNum = 4 and ok = False and eb = 0 and steps = "[(0, 10)]" and b = 0]
  show ?thesis by (simp add: h nf isLookup_def)
qed

section \<open>Reconstitution: the transposition\<close>

text \<open>The load function on the records of one domain key.\<close>

lemma sliceBytes_sliceReset [simp]: "sliceBytes (sliceReset old x) = x"
  by (simp add: sliceReset_def sliceBytes_def)

lemma loadFunc_same_key:
  assumes "8 \<le> length k" and "take (length k - 8) k = K" and "lastKey s = Some K"
  shows "loadFunc E T s (k, v) =
           Continue (s\<lparr>lastVal := (case v of None \<Rightarrow> None | Some x \<Rightarrow> sliceReset (lastVal s) x)\<rparr>)"
  using assms by (simp add: loadFunc_def andThen_def sliceBytes_def)

lemma loadAll_same_key:
  assumes "\<forall>kv \<in> set es. 8 \<le> length (fst kv) \<and> take (length (fst kv) - 8) (fst kv) = K"
    and "lastKey s = Some K"
  shows "\<exists>lv. loadAll E T es s = Continue (s\<lparr>lastVal := lv\<rparr>) \<and>
           (es = [] \<longrightarrow> lv = lastVal s) \<and>
           (es \<noteq> [] \<longrightarrow> sliceBytes lv = (case snd (last es) of None \<Rightarrow> [] | Some x \<Rightarrow> x))"
  using assms
proof (induction es arbitrary: s)
  case Nil
  then show ?case by (intro exI [of _ "lastVal s"]) simp
next
  case (Cons kv es)
  obtain k v where kv: "kv = (k, v)" by (cases kv)
  let ?s1 = "s\<lparr>lastVal := (case v of None \<Rightarrow> None | Some x \<Rightarrow> sliceReset (lastVal s) x)\<rparr>"
  from Cons.prems kv have f: "loadFunc E T s (k, v) = Continue ?s1"
    by (intro loadFunc_same_key) auto
  from Cons.prems have "\<forall>kv \<in> set es. 8 \<le> length (fst kv) \<and> take (length (fst kv) - 8) (fst kv) = K"
    and "lastKey ?s1 = Some K" by simp_all
  from Cons.IH [OF this] obtain lv where
    l: "loadAll E T es ?s1 = Continue (?s1\<lparr>lastVal := lv\<rparr>)" "es = [] \<longrightarrow> lv = lastVal ?s1"
       "es \<noteq> [] \<longrightarrow> sliceBytes lv = (case snd (last es) of None \<Rightarrow> [] | Some x \<Rightarrow> x)" by blast
  show ?case
  proof (intro exI [of _ lv] conjI impI)
    show "loadAll E T (kv # es) s = Continue (s\<lparr>lastVal := lv\<rparr>)"
      using f l(1) kv by simp
    show "lv = lastVal s" if "kv # es = []" using that by simp
    have "sliceBytes (lastVal ?s1) = (case v of None \<Rightarrow> [] | Some x \<Rightarrow> x)"
      by (cases v) (simp_all add: sliceBytes_def sliceReset_def)
    then show "sliceBytes lv = (case snd (last (kv # es)) of None \<Rightarrow> [] | Some x \<Rightarrow> x)"
      using l(2,3) kv by (cases "es = []") simp_all
  qed
qed

text \<open>
  The fold of the records of one domain key \<open>K\<close>, in the order of their transaction
  numbers: the last record decides. Its value is written if it has bytes; the key is
  deleted if the record is a tombstone, and also if its value is empty.
\<close>

lemma loadTable_one_key:
  assumes "\<forall>kv \<in> set es. 8 \<le> length (fst kv) \<and> take (length (fst kv) - 8) (fst kv) = K"
    and "es \<noteq> []" and "K \<noteq> []"
  shows "\<exists>lv. sliceBytes lv = (case snd (last es) of None \<Rightarrow> [] | Some x \<Rightarrow> x) \<and>
           loadTable E T es s =
             (case snd (last es) of
                None \<Rightarrow> txDelete E T K (s\<lparr>lastKey := Some K, lastVal := lv\<rparr>)
              | Some x \<Rightarrow> if x = [] then txDelete E T K (s\<lparr>lastKey := Some K, lastVal := lv\<rparr>)
                          else txPut E T K x (s\<lparr>lastKey := Some K, lastVal := lv\<rparr>))"
proof -
  obtain k v rest where es: "es = (k, v) # rest" using assms(2) by (cases es) auto
  let ?s0 = "s\<lparr>lastKey := None, lastVal := None\<rparr>"
  let ?s1 = "?s0\<lparr>lastKey := Some K, lastVal := (case v of None \<Rightarrow> None | Some x \<Rightarrow> sliceReset None x)\<rparr>"
  from assms(1,3) es have f: "loadFunc E T ?s0 (k, v) = Continue ?s1"
    by (cases v) (auto simp: loadFunc_def andThen_def sliceBytes_def sliceReset_def)
  from assms(1) es have "\<forall>kv \<in> set rest. 8 \<le> length (fst kv) \<and> take (length (fst kv) - 8) (fst kv) = K"
    and "lastKey ?s1 = Some K" by simp_all
  from loadAll_same_key [OF this, of E T] obtain lv where
    l: "loadAll E T rest ?s1 = Continue (?s1\<lparr>lastVal := lv\<rparr>)" "rest = [] \<longrightarrow> lv = lastVal ?s1"
       "rest \<noteq> [] \<longrightarrow> sliceBytes lv = (case snd (last rest) of None \<Rightarrow> [] | Some x \<Rightarrow> x)" by blast
  have "sliceBytes (lastVal ?s1) = (case v of None \<Rightarrow> [] | Some x \<Rightarrow> x)"
    by (cases v) (simp_all add: sliceBytes_def sliceReset_def)
  then have sb: "sliceBytes lv = (case snd (last es) of None \<Rightarrow> [] | Some x \<Rightarrow> x)"
    using l(2,3) es by (cases "rest = []") simp_all
  have all: "loadAll E T es ?s0 = Continue (s\<lparr>lastKey := Some K, lastVal := lv\<rparr>)"
    using f l(1) es by simp
  show ?thesis
    using sb by (intro exI [of _ lv]) (auto simp: loadTable_def all split: option.splits)
qed

lemmas eval_recon = reconstituteStep_def stepRange_def replay_def transpose_def collect_def
  collectR_def collectD_def sortableBuffer_def oldestEntryBuffer_def loadTable_def loadFunc_def
  etlNext_def txPut_def txDelete_def sliceReset_def sliceBytes_def andThen_def fallible_def
  record_call_def Let_def

text \<open>
  Claim C7 at a concrete input. The scratch table \<^verbatim>\<open>PlainStateR\<close> has one record, for the
  domain key \<open>[1]\<close> at transaction number 3, and the main store has \<open>[9]\<close> under that key.
  Where the record has the empty value, the step deletes the key: the pending value is
  still the nil slice after \<^verbatim>\<open>append(lastVal[:0], v...)\<close>, and the last write tests
  \<^verbatim>\<open>len(lastVal) > 0\<close>. The comment at line 1465 has the empty value written as an empty
  value, and only nil deleted. Where the record has the value \<open>[5]\<close>, the step writes it.
\<close>

theorem transpose_empty_value_is_deleted:
  "calls (flowState (reconstituteStep envEmptyValue True (0, 10) 4 reconOld)) =
     [FindBlockNum 0, FindBlockNum 10, BitmapAccounts, BitmapStorage, BitmapCode,
      ReplayBlocks 0 4 0, ReconFlush, ScratchView, ClearBuckets,
      Delete PlainState [1], ChainDbCommit] \<and>
   mainStore reconOld PlainState [1] = Some [9] \<and>
   mainStore (flowState (reconstituteStep envEmptyValue True (0, 10) 4 reconOld)) PlainState [1] = None \<and>
   calls (flowState (reconstituteStep envValue True (0, 10) 4 reconOld)) =
     [FindBlockNum 0, FindBlockNum 10, BitmapAccounts, BitmapStorage, BitmapCode,
      ReplayBlocks 0 4 0, ReconFlush, ScratchView, ClearBuckets,
      Put PlainState [1] [5], ChainDbCommit] \<and>
   mainStore (flowState (reconstituteStep envValue True (0, 10) 4 reconOld)) PlainState [1] = Some [5]"
proof -
  have 1: "calls (flowState (reconstituteStep envEmptyValue True (0, 10) 4 reconOld)) =
     [FindBlockNum 0, FindBlockNum 10, BitmapAccounts, BitmapStorage, BitmapCode,
      ReplayBlocks 0 4 0, ReconFlush, ScratchView, ClearBuckets,
      Delete PlainState [1], ChainDbCommit]"
    by (simp add: eval_recon envEmptyValue_def envOK_def noScratch_def reconOld_def recon0_def)
  have 2: "mainStore reconOld PlainState [1] = Some [9]" by (simp add: reconOld_def)
  have 3: "mainStore (flowState (reconstituteStep envEmptyValue True (0, 10) 4 reconOld)) PlainState [1]
             = None"
    by (simp add: eval_recon envEmptyValue_def envOK_def noScratch_def reconOld_def recon0_def)
  have 4: "calls (flowState (reconstituteStep envValue True (0, 10) 4 reconOld)) =
     [FindBlockNum 0, FindBlockNum 10, BitmapAccounts, BitmapStorage, BitmapCode,
      ReplayBlocks 0 4 0, ReconFlush, ScratchView, ClearBuckets,
      Put PlainState [1] [5], ChainDbCommit]"
    by (simp add: eval_recon envValue_def envOK_def noScratch_def reconOld_def recon0_def)
  have 5: "mainStore (flowState (reconstituteStep envValue True (0, 10) 4 reconOld)) PlainState [1]
             = Some [5]"
    by (simp add: eval_recon envValue_def envOK_def noScratch_def reconOld_def recon0_def)
  from 1 2 3 4 5 show ?thesis by (simp only: simp_thms)
qed

end
